theory Spec2Isabelle
  imports Complex_Main "HOL-Library.AList"
begin

section \<open>JavaScript values and errors\<close>

text \<open>
  The values that reach the code: \<open>undefined\<close>, numbers (integers, and \<open>NaN\<close> as the
  result of arithmetic on \<open>undefined\<close>) and strings. An element of a grid is a string or a
  number; a flag is a number.
\<close>

datatype jsval = Undefined | NaN | Num int | Str string

text \<open>Every \<open>throw\<close> of the source is a value of this type.\<close>

datatype error =
    SizeMismatch nat nat
  | IndexOutOfRange int int int
  | SizeNotMatch
  | UnknownMode string

text \<open>\<open>!v\<close>: the values that JavaScript treats as false.\<close>

fun falsy :: "jsval \<Rightarrow> bool" where
  "falsy Undefined = True"
| "falsy NaN = True"
| "falsy (Num n) = (n = 0)"
| "falsy (Str s) = (s = [])"

text \<open>\<open>array[i]\<close>: reading outside the array gives \<open>undefined\<close>.\<close>

definition js_nth :: "jsval list \<Rightarrow> int \<Rightarrow> jsval" where
  "js_nth xs i = (if 0 \<le> i \<and> i < int (length xs) then xs ! nat i else Undefined)"

text \<open>
  \<open>a + b\<close> and \<open>a - b\<close> on the operands \<open>Matrix<number>\<close> allows: two numbers, or a
  number and the \<open>undefined\<close> read past the end of an array, which gives \<open>NaN\<close>.
  Arithmetic on strings is outside that type and is not modelled.
\<close>

fun js_add :: "jsval \<Rightarrow> jsval \<Rightarrow> jsval" where
  "js_add (Num a) (Num b) = Num (a + b)"
| "js_add _ _ = NaN"

fun js_sub :: "jsval \<Rightarrow> jsval \<Rightarrow> jsval" where
  "js_sub (Num a) (Num b) = Num (a - b)"
| "js_sub _ _ = NaN"

text \<open>
  Modelled from the spec: \<open>uniq\<close> of the library \<open>lodash\<close>, the deduplication of a
  list: the first occurrence of every value, in order.
\<close>

fun uniq :: "'a list \<Rightarrow> 'a list" where
  "uniq [] = []"
| "uniq (x # xs) = x # uniq (filter (\<lambda>y. y \<noteq> x) xs)"

section \<open>Matrix\<close>

text \<open>
  A matrix object: its row count, its column count and its elements. The field
  \<open>elements\<close> is the array itself in the functions that only read it, and a reference
  into a store of arrays where the sharing of the array matters (\<open>restore\<close>).
\<close>

record 'arr matrix =
  row :: nat
  col :: nat
  elements :: 'arr

type_synonym vmatrix = "jsval list matrix"

definition new_Matrix :: "nat \<Rightarrow> nat \<Rightarrow> jsval list \<Rightarrow> error + vmatrix" where
  "new_Matrix r c els =
     (if r * c \<noteq> length els then Inl (SizeMismatch (r * c) (length els))
      else Inr \<lparr>row = r, col = c, elements = els\<rparr>)"

definition size_of :: "'arr matrix \<Rightarrow> nat" where
  "size_of m = row m * col m"

definition OutOfRange :: "int \<Rightarrow> int \<Rightarrow> int \<Rightarrow> bool" where
  "OutOfRange index mx mn = (index < mn \<or> index > mx)"

definition SizeMatch :: "'a matrix \<Rightarrow> 'b matrix \<Rightarrow> bool" where
  "SizeMatch a b = (row a = row b \<and> col a = row b)"

definition Add :: "vmatrix \<Rightarrow> vmatrix \<Rightarrow> error + vmatrix" where
  "Add a b =
     (if \<not> SizeMatch a b then Inl SizeNotMatch
      else new_Matrix (row a) (col a)
             (map (\<lambda>(av, i). js_add av (js_nth (elements b) (int i)))
                  (zip (elements a) [0..<length (elements a)])))"

definition Sub :: "vmatrix \<Rightarrow> vmatrix \<Rightarrow> error + vmatrix" where
  "Sub a b =
     (if \<not> SizeMatch a b then Inl SizeNotMatch
      else new_Matrix (row a) (col a)
             (map (\<lambda>(av, i). js_sub av (js_nth (elements b) (int i)))
                  (zip (elements a) [0..<length (elements a)])))"

definition getIndex :: "vmatrix \<Rightarrow> int \<Rightarrow> int \<Rightarrow> error + int" where
  "getIndex m rowIndex colIndex =
     (if OutOfRange rowIndex (int (row m) - 1) 0
        then Inl (IndexOutOfRange 0 (int (row m) - 1) rowIndex)
      else if OutOfRange colIndex (int (col m) - 1) 0
        then Inl (IndexOutOfRange 0 (int (col m) - 1) colIndex)
      else Inr (rowIndex * int (col m) + colIndex))"

definition getRowIndex :: "vmatrix \<Rightarrow> int \<Rightarrow> error + int" where
  "getRowIndex m elOffset =
     (if OutOfRange elOffset (int (length (elements m)) - 1) 0
        then Inl (IndexOutOfRange 0 (int (length (elements m)) - 1) elOffset)
      else Inr (elOffset div int (col m)))"

definition getColIndex :: "vmatrix \<Rightarrow> int \<Rightarrow> error + int" where
  "getColIndex m elOffset =
     (if OutOfRange elOffset (int (length (elements m)) - 1) 0
        then Inl (IndexOutOfRange 0 (int (length (elements m)) - 1) elOffset)
      else Inr (elOffset mod int (col m)))"

definition getElement :: "vmatrix \<Rightarrow> int \<Rightarrow> int \<Rightarrow> error + jsval" where
  "getElement m rowIndex colIndex =
     (if OutOfRange rowIndex (int (row m) - 1) 0
        then Inl (IndexOutOfRange 0 (int (row m) - 1) rowIndex)
      else if OutOfRange colIndex (int (col m) - 1) 0
        then Inl (IndexOutOfRange 0 (int (col m) - 1) colIndex)
      else (case getIndex m rowIndex colIndex of
              Inl e \<Rightarrow> Inl e
            | Inr index \<Rightarrow> Inr (js_nth (elements m) index)))"

section \<open>JavaScript maps\<close>

text \<open>
  A \<open>Map\<close> keeps its entries in insertion order, one entry for every key: the list of
  its entries, as \<open>Array.from\<close> gives it. \<open>set\<close> replaces the value of a key that is
  present, in place, and appends the entry of a new key; \<open>new Map(entries)\<close> sets the
  entries one after the other.
\<close>

type_synonym ('k, 'v) jsmap = "('k \<times> 'v) list"

definition map_has :: "('k, 'v) jsmap \<Rightarrow> 'k \<Rightarrow> bool" where
  "map_has m k = (map_of m k \<noteq> None)"

definition map_set :: "'k \<Rightarrow> 'v \<Rightarrow> ('k, 'v) jsmap \<Rightarrow> ('k, 'v) jsmap" where
  "map_set k v m = AList.update k v m"

definition new_Map :: "('k \<times> 'v) list \<Rightarrow> ('k, 'v) jsmap" where
  "new_Map entries = fold (\<lambda>(k, v). map_set k v) entries []"

section \<open>MatrixTransformer\<close>

text \<open>\<open>__flags\<close>: the map from an element to its flag.\<close>

type_synonym flagmap = "(jsval, int) jsmap"

text \<open>
  \<open>ensureFlag\<close> returns the flag and the map it leaves behind. The flag of a key
  that is present is \<open>get(key)\<close>; a new key is set to \<open>size + 1\<close> first.
\<close>

definition ensureFlag :: "jsval \<Rightarrow> flagmap \<Rightarrow> int \<times> flagmap" where
  "ensureFlag key fl =
     (case map_of fl key of
        Some flag \<Rightarrow> (flag, fl)
      | None \<Rightarrow> (int (length fl) + 1, map_set key (int (length fl) + 1) fl))"

definition getFlag :: "jsval \<Rightarrow> flagmap \<Rightarrow> int option" where
  "getFlag key fl = map_of fl key"

text \<open>\<open>hasKey\<close> and \<open>getKey\<close> scan the entries in order and compare with \<open>===\<close>.\<close>

definition hasKey :: "flagmap \<Rightarrow> jsval \<Rightarrow> bool" where
  "hasKey fl flag = list_ex (\<lambda>(key, v). Num v = flag) fl"

definition getKey :: "flagmap \<Rightarrow> jsval \<Rightarrow> jsval" where
  "getKey fl flag =
     (case find (\<lambda>(key, v). Num v = flag) fl of
        None \<Rightarrow> Undefined
      | Some (key, v) \<Rightarrow> key)"

text \<open>
  \<open>embedding\<close>: a new matrix of zeros of the same shape, filled with the flag of every
  element; the registry grows by the elements it had not seen.
\<close>

fun embedding_loop :: "jsval list \<Rightarrow> nat list \<Rightarrow> jsval list \<Rightarrow> flagmap \<Rightarrow> jsval list \<times> flagmap" where
  "embedding_loop src [] out fl = (out, fl)"
| "embedding_loop src (i # rest) out fl =
     (let element = js_nth src (int i);
          (flag, fl') = ensureFlag element fl
      in embedding_loop src rest (out[i := Num flag]) fl')"

definition embedding :: "vmatrix \<Rightarrow> flagmap \<Rightarrow> (error + vmatrix) \<times> flagmap" where
  "embedding m fl =
     (case new_Matrix (row m) (col m) (replicate (length (elements m)) (Num 0)) of
        Inl e \<Rightarrow> (Inl e, fl)
      | Inr mat \<Rightarrow>
          (let (out, fl') = embedding_loop (elements m) [0..<length (elements m)] (elements mat) fl
           in (Inr (mat\<lparr>elements := out\<rparr>), fl')))"

subsection \<open>restore, on a store of arrays\<close>

text \<open>
  \<open>restore\<close> builds its result with \<open>new Matrix(row, col, elements)\<close> from the array
  of its argument, and the constructor keeps the array it is given. The arrays live
  in a store, a matrix object holds the reference of its array, and \<open>restore\<close> returns
  its result together with the store it leaves behind.
\<close>

type_synonym ref = nat
type_synonym store = "ref \<Rightarrow> jsval list"
type_synonym rmatrix = "ref matrix"

definition new_Matrix_ref :: "store \<Rightarrow> nat \<Rightarrow> nat \<Rightarrow> ref \<Rightarrow> error + rmatrix" where
  "new_Matrix_ref h r c els =
     (if r * c \<noteq> length (h els) then Inl (SizeMismatch (r * c) (length (h els)))
      else Inr \<lparr>row = r, col = c, elements = els\<rparr>)"

definition restore_cell :: "flagmap \<Rightarrow> jsval \<Rightarrow> jsval \<Rightarrow> jsval" where
  "restore_cell fl nonExistsFill element =
     (if \<not> hasKey fl element then nonExistsFill else getKey fl element)"

text \<open>
  One call of the \<open>forEach\<close> callback: it reads \<open>elements[i]\<close> of the argument and
  writes \<open>mat.elements[i]\<close> of the result.
\<close>

definition restore_step :: "flagmap \<Rightarrow> jsval \<Rightarrow> ref \<Rightarrow> ref \<Rightarrow> nat \<Rightarrow> store \<Rightarrow> store" where
  "restore_step fl nonExistsFill src dst i h =
     (let element = js_nth (h src) (int i)
      in h(dst := (h dst)[i := restore_cell fl nonExistsFill element]))"

definition restore :: "flagmap \<Rightarrow> store \<Rightarrow> rmatrix \<Rightarrow> jsval \<Rightarrow> (error + rmatrix) \<times> store" where
  "restore fl h m nonExistsFill =
     (case new_Matrix_ref h (row m) (col m) (elements m) of
        Inl e \<Rightarrow> (Inl e, h)
      | Inr mat \<Rightarrow>
          (Inr mat,
           fold (restore_step fl nonExistsFill (elements m) (elements mat))
                [0..<length (h (elements m))] h))"

text \<open>The store whose references all hold the array \<open>xs\<close>.\<close>

definition store_of :: "jsval list \<Rightarrow> store" where
  "store_of xs a = xs"

text \<open>The matrix a reference matrix stands for, with its array read from the store.\<close>

definition deref :: "store \<Rightarrow> rmatrix \<Rightarrow> vmatrix" where
  "deref h m = \<lparr>row = row m, col = col m, elements = h (elements m)\<rparr>"

section \<open>Relationship\<close>

text \<open>
  Modelled from the spec: the relationship object of the library \<open>node-relation\<close>,
  which is not part of the sources. It is a directed graph kept as \<open>__relations\<close>, the
  map from a node to the array of its neighbours; the constructor imports a list of
  \<open>(node, [neighbours])\<close> pairs into the map, and \<open>dataset\<close> exports the entries of the
  map as such a list.

  The default cache \<open>DefSubAliasCache\<close> of a trainer is a map from a relationship
  object to the table of that object. The table of an object is kept with the object,
  as \<open>subAliasEntry\<close>: \<open>None\<close> while the cache has no entry for the object, as for
  every object that was just constructed.
\<close>

type_synonym relmap = "(int, int list) jsmap"
type_synonym subtable = "jsval \<rightharpoonup> jsval list"

record relationship =
  relations :: relmap
  subAliasEntry :: "subtable option"

definition new_Relationship :: "(int \<times> int list) list \<Rightarrow> relationship" where
  "new_Relationship ds = \<lparr>relations = new_Map ds, subAliasEntry = None\<rparr>"

definition rel_dataset :: "relationship \<Rightarrow> (int \<times> int list) list" where
  "rel_dataset r = relations r"

text \<open>\<open>relation.relations.get(element) ?? []\<close>: the keys are numbers.\<close>

definition rel_get :: "relationship \<Rightarrow> jsval \<Rightarrow> jsval list" where
  "rel_get r element =
     (case element of
        Num n \<Rightarrow> (case map_of (relations r) n of Some l \<Rightarrow> map Num l | None \<Rightarrow> [])
      | _ \<Rightarrow> [])"

section \<open>MatrixTrainer\<close>

record trainer =
  flags :: flagmap
  xn :: relationship
  yn :: relationship
  sim :: relationship

definition new_MatrixTrainer :: trainer where
  "new_MatrixTrainer =
     \<lparr>flags = new_Map [], xn = new_Relationship [], yn = new_Relationship [],
      sim = new_Relationship []\<rparr>"

type_synonym dataset = "(jsval \<times> int) list \<times> (int \<times> int list) list \<times> (int \<times> int list) list \<times> (int \<times> int list) list"

definition dataset :: "trainer \<Rightarrow> dataset" where
  "dataset t = (flags t, rel_dataset (xn t), rel_dataset (yn t), rel_dataset (sim t))"

definition load :: "dataset \<Rightarrow> trainer \<Rightarrow> trainer" where
  "load ds t =
     (case ds of (fl, x, y, s) \<Rightarrow>
        t\<lparr>flags := new_Map fl, xn := new_Relationship x, yn := new_Relationship y,
          sim := new_Relationship s\<rparr>)"

definition aliases :: "trainer \<Rightarrow> jsval \<Rightarrow> jsval list" where
  "aliases t element = element # rel_get (sim t) element"

definition nextElements :: "relationship \<Rightarrow> jsval \<Rightarrow> jsval list" where
  "nextElements relation element = uniq (rel_get relation element)"

definition nextAliases :: "trainer \<Rightarrow> relationship \<Rightarrow> jsval \<Rightarrow> jsval list" where
  "nextAliases t relation element =
     (let children = concat (map (nextElements relation) (aliases t element))
      in uniq (concat (map (aliases t) children)))"

subsection \<open>ally and train\<close>

text \<open>
  \<open>ally\<close> and \<open>train\<close> register the elements they meet and hand the flags to the
  relationship objects. The two library methods they call, \<open>merge\<close> and \<open>to\<close>, are
  parameters: \<open>merge_fn r ds\<close> and \<open>to_fn r a b\<close> are the relationship after the call.
\<close>

fun ensureFlags :: "jsval list \<Rightarrow> flagmap \<Rightarrow> int list \<times> flagmap" where
  "ensureFlags [] fl = ([], fl)"
| "ensureFlags (v # vs) fl =
     (let (r, fl1) = ensureFlag v fl;
          (rs, fl2) = ensureFlags vs fl1
      in (r # rs, fl2))"

fun ally_map :: "(jsval \<times> jsval list) list \<Rightarrow> flagmap \<Rightarrow> (int \<times> int list) list \<times> flagmap" where
  "ally_map [] fl = ([], fl)"
| "ally_map ((key, vals) # rest) fl =
     (let (rKey, fl1) = ensureFlag key fl;
          (rValues, fl2) = ensureFlags vals fl1;
          (ds, fl3) = ally_map rest fl2
      in ((rKey, rValues) # ds, fl3))"

definition ally ::
  "(relationship \<Rightarrow> (int \<times> int list) list \<Rightarrow> relationship) \<Rightarrow>
   (jsval \<times> jsval list) list \<Rightarrow> trainer \<Rightarrow> trainer" where
  "ally merge_fn groups t =
     (let (ds, fl) = ally_map groups (flags t)
      in t\<lparr>flags := fl, sim := merge_fn (sim t) ds\<rparr>)"

text \<open>
  One call of the callback of \<open>train\<close>, for the element at offset \<open>i\<close>; the error, if
  one of the matrix methods throws, comes with the trainer as it was left.
\<close>

definition train_cell ::
  "(relationship \<Rightarrow> int \<Rightarrow> int \<Rightarrow> relationship) \<Rightarrow> vmatrix \<Rightarrow> nat \<Rightarrow> trainer \<Rightarrow>
   error option \<times> trainer" where
  "train_cell to_fn m i t =
     (case getRowIndex m (int i) of Inl e \<Rightarrow> (Some e, t) | Inr rowIndex \<Rightarrow>
      case getColIndex m (int i) of Inl e \<Rightarrow> (Some e, t) | Inr colIndex \<Rightarrow>
      let (element, fl1) = ensureFlag (js_nth (elements m) (int i)) (flags t);
          t1 = t\<lparr>flags := fl1\<rparr>
      in case (if \<not> OutOfRange (rowIndex - 1) (int (row m) - 1) 0
               then (case getElement m (rowIndex - 1) colIndex of
                       Inl e \<Rightarrow> (Some e, t1)
                     | Inr top_el \<Rightarrow>
                         (let (top', fl2) = ensureFlag top_el (flags t1)
                          in (None, t1\<lparr>flags := fl2, yn := to_fn (yn t1) top' element\<rparr>)))
               else (None, t1)) of
           (Some e, t2) \<Rightarrow> (Some e, t2)
         | (None, t2) \<Rightarrow>
             (if \<not> OutOfRange (colIndex - 1) (int (col m) - 1) 0
              then (case getElement m rowIndex (colIndex - 1) of
                      Inl e \<Rightarrow> (Some e, t2)
                    | Inr left_el \<Rightarrow>
                        (let (left', fl3) = ensureFlag left_el (flags t2)
                         in (None, t2\<lparr>flags := fl3, xn := to_fn (xn t2) left' element\<rparr>)))
              else (None, t2)))"

fun train_loop ::
  "(relationship \<Rightarrow> int \<Rightarrow> int \<Rightarrow> relationship) \<Rightarrow> vmatrix \<Rightarrow> nat list \<Rightarrow> trainer \<Rightarrow>
   error option \<times> trainer" where
  "train_loop to_fn m [] t = (None, t)"
| "train_loop to_fn m (i # rest) t =
     (case train_cell to_fn m i t of
        (Some e, t') \<Rightarrow> (Some e, t')
      | (None, t') \<Rightarrow> train_loop to_fn m rest t')"

definition train ::
  "(relationship \<Rightarrow> int \<Rightarrow> int \<Rightarrow> relationship) \<Rightarrow> vmatrix \<Rightarrow> trainer \<Rightarrow>
   error option \<times> trainer" where
  "train to_fn m t = train_loop to_fn m [0..<length (elements m)] t"

subsection \<open>The cached queries of generate\<close>

text \<open>
  \<open>generate\<close> asks for the expanded neighbours through the closure \<open>nextAliases\<close>
  that \<open>UseCache\<close> returns, always with \<open>this.__xn\<close> or \<open>this.__yn\<close>. A lookup takes
  the relationship (by its axis), the element and the state of the cache, and returns
  the neighbours and the cache it leaves behind. The loops of \<open>generate\<close> are written
  over any such lookup.
\<close>

datatype axis = XN | YN

type_synonym 's lookup = "axis \<Rightarrow> jsval \<Rightarrow> 's \<Rightarrow> jsval list \<times> 's"

type_synonym cache = "axis \<Rightarrow> subtable option"

definition relation_of :: "trainer \<Rightarrow> axis \<Rightarrow> relationship" where
  "relation_of t ax = (case ax of XN \<Rightarrow> xn t | YN \<Rightarrow> yn t)"

text \<open>
  The closure: the table of the relationship is created when the cache has none, and
  the neighbours of an element are computed, by the trainer's own \<open>nextAliases\<close>, when
  the table has no entry for it. The closures \<open>aliases\<close> and \<open>nextElements\<close> of
  \<open>UseCache\<close> are never called.
\<close>

definition UseCache_nextAliases :: "trainer \<Rightarrow> cache lookup" where
  "UseCache_nextAliases t ax element c =
     (case c ax of
        None \<Rightarrow>
          (let subs = nextAliases t (relation_of t ax) element
           in (subs, c(ax := Some [element \<mapsto> subs])))
      | Some tab \<Rightarrow>
          (case tab element of
             None \<Rightarrow>
               (let subs = nextAliases t (relation_of t ax) element
                in (subs, c(ax := Some (tab(element \<mapsto> subs)))))
           | Some subs \<Rightarrow> (subs, c)))"

text \<open>The cache a call starts from, and the trainer a call leaves behind.\<close>

definition cache_of :: "trainer \<Rightarrow> bool \<Rightarrow> cache" where
  "cache_of t useDefaultCache =
     (if useDefaultCache then (\<lambda>ax. subAliasEntry (relation_of t ax)) else (\<lambda>ax. None))"

definition store_cache :: "trainer \<Rightarrow> bool \<Rightarrow> cache \<Rightarrow> trainer" where
  "store_cache t useDefaultCache c =
     (if useDefaultCache
      then t\<lparr>xn := (xn t)\<lparr>subAliasEntry := c XN\<rparr>, yn := (yn t)\<lparr>subAliasEntry := c YN\<rparr>\<rparr>
      else t)"

subsection \<open>generate\<close>

definition hasTop :: "vmatrix \<Rightarrow> int \<Rightarrow> bool" where
  "hasTop mat rowIndex = (\<not> OutOfRange (rowIndex - 1) (int (row mat) - 1) 0)"

definition hasLeft :: "vmatrix \<Rightarrow> int \<Rightarrow> bool" where
  "hasLeft mat colIndex = (\<not> OutOfRange (colIndex - 1) (int (col mat) - 1) 0)"

text \<open>
  \<open>FixedRandom\<close> (an MD5 hash of the seed, scaled) and \<open>shuffle\<close> (of the library
  \<open>shuffle-seed\<close>, which returns a new array) are parameters: \<open>fr seed\<close> is the number
  \<open>FixedRandom\<close> returns and \<open>sh array seed\<close> the shuffled array, each a function of
  its arguments.
\<close>

text \<open>
  Two stand-ins for the closed examples: the shuffle that keeps the order, which is what
  every shuffle returns on an array of one element, and a \<open>FixedRandom\<close> that is
  \<open>0\<close>.
\<close>

definition keep_order :: "jsval list \<Rightarrow> jsval \<Rightarrow> jsval list" where
  "keep_order array seed = array"

definition no_random :: "jsval \<Rightarrow> real" where
  "no_random seed = 0"

definition Sample :: "(jsval \<Rightarrow> real) \<Rightarrow> jsval list \<Rightarrow> jsval \<Rightarrow> jsval" where
  "Sample fr array seed =
     (let random = fr seed;
          index = \<lfloor>real (length array) * random\<rfloor>
      in js_nth array index)"

text \<open>
  The two loops that fill \<open>xs\<close> and \<open>ys\<close>: their result is not used, their lookups
  are made.
\<close>

fun push_all :: "'s lookup \<Rightarrow> axis \<Rightarrow> jsval list \<Rightarrow> jsval list \<Rightarrow> 's \<Rightarrow> jsval list \<times> 's" where
  "push_all na ax [] acc s = (acc, s)"
| "push_all na ax (x # rest) acc s =
     (let (r, s1) = na ax x s in push_all na ax rest (acc @ r) s1)"

text \<open>
  The test on the top and the left neighbour: \<open>Inr False\<close> is the \<open>continue\<close>.
\<close>

definition connect_check ::
  "'s lookup \<Rightarrow> vmatrix \<Rightarrow> int \<Rightarrow> int \<Rightarrow> jsval \<Rightarrow> 's \<Rightarrow> (error + bool) \<times> 's" where
  "connect_check na mat rowIndex colIndex sub s =
     (if hasTop mat rowIndex \<and> hasLeft mat colIndex then
        (case getElement mat rowIndex (colIndex - 1) of
           Inl e \<Rightarrow> (Inl e, s)
         | Inr left_el \<Rightarrow>
             (let (ls, s1) = na XN left_el s;
                  xConnectable = (sub \<in> set ls)
              in case getElement mat (rowIndex - 1) colIndex of
                   Inl e \<Rightarrow> (Inl e, s1)
                 | Inr top_el \<Rightarrow>
                     (let (ts, s2) = na YN top_el s1;
                          yConnectable = (sub \<in> set ts)
                      in (Inr (\<not> (\<not> xConnectable \<or> \<not> yConnectable)), s2))))
      else (Inr True, s))"

text \<open>The lookahead test: \<open>Inr False\<close> is the \<open>continue\<close>.\<close>

definition lookahead_check ::
  "'s lookup \<Rightarrow> vmatrix \<Rightarrow> int \<Rightarrow> int \<Rightarrow> jsval list \<Rightarrow> 's \<Rightarrow> (error + bool) \<times> 's" where
  "lookahead_check na mat rowIndex colIndex xAliases s =
     (if hasTop mat rowIndex \<and> hasLeft mat (colIndex + 2) then
        (case getElement mat (rowIndex - 1) (colIndex + 1) of
           Inl e \<Rightarrow> (Inl e, s)
         | Inr nt \<Rightarrow>
             (let (ns, s1) = na YN nt s;
                  nConnectable = filter (\<lambda>v. v \<in> set xAliases) ns
              in (Inr (nConnectable \<noteq> []), s1)))
      else (Inr True, s))"

text \<open>
  The loop over the candidates, \<open>for (const sub of subs)\<close>. It runs over the array that
  \<open>subs\<close> named when the loop began; \<open>element\<close> and \<open>subs\<close> are the variables the body
  assigns. The loop ends at the end of the array or at the \<open>break\<close>.
\<close>

fun scan ::
  "'s lookup \<Rightarrow> vmatrix \<Rightarrow> int \<Rightarrow> int \<Rightarrow> jsval list \<Rightarrow> jsval \<times> jsval list \<Rightarrow> 's \<Rightarrow>
   (error + jsval \<times> jsval list) \<times> 's" where
  "scan na mat rowIndex colIndex [] (element, subs) s = (Inr (element, subs), s)"
| "scan na mat rowIndex colIndex (sub # rest) (element, subs) s =
     (let (xAliases, s1) = na XN sub s;
          (yAliases, s2) = na YN sub s1
      in if xAliases = [] \<or> yAliases = [] then (Inr (element, subs), s2)
         else
           (let (xs, s3) = push_all na YN xAliases [] s2;
                (ys, s4) = push_all na XN yAliases [] s3
            in case connect_check na mat rowIndex colIndex sub s4 of
                 (Inl e, s5) \<Rightarrow> (Inl e, s5)
               | (Inr False, s5) \<Rightarrow> scan na mat rowIndex colIndex rest (element, subs) s5
               | (Inr True, s5) \<Rightarrow>
                   (case lookahead_check na mat rowIndex colIndex xAliases s5 of
                      (Inl e, s6) \<Rightarrow> (Inl e, s6)
                    | (Inr False, s6) \<Rightarrow> scan na mat rowIndex colIndex rest (element, subs) s6
                    | (Inr True, s6) \<Rightarrow> scan na mat rowIndex colIndex rest (sub, xAliases) s6)))"

text \<open>
  The start of a row after the first: the pool is taken from the first element of the
  row before.
\<close>

definition reseed ::
  "'s lookup \<Rightarrow> vmatrix \<Rightarrow> int \<Rightarrow> int \<Rightarrow> jsval list \<Rightarrow> 's \<Rightarrow> (error + jsval list) \<times> 's" where
  "reseed na mat rowIndex colIndex subs s =
     (if colIndex = 0 then
        (if rowIndex > 0 then
           (case getElement mat (rowIndex - 1) 0 of
              Inl e \<Rightarrow> (Inl e, s)
            | Inr beforeFirst \<Rightarrow> (let (r, s1) = na YN beforeFirst s in (Inr r, s1)))
         else (Inr subs, s))
      else (Inr subs, s))"

text \<open>
  The variables of the loop over the cells: the elements of \<open>mat\<close>, \<open>score\<close>, \<open>subs\<close>
  and the state of the lookups.
\<close>

record 's gen_state =
  g_elements :: "jsval list"
  g_score :: nat
  g_subs :: "jsval list"
  g_cache :: 's

datatype 's step = Next "'s gen_state" | Break "'s gen_state" | Throw error "'s gen_state"

text \<open>
  The first half of the body of the loop over the cells: the coordinates of the cell,
  the pool, its shuffle and the loop over the candidates. The result is the value of
  \<open>element\<close> and of \<open>subs\<close> after that loop.
\<close>

definition cell_scan ::
  "'s lookup \<Rightarrow> (jsval list \<Rightarrow> jsval \<Rightarrow> jsval list) \<Rightarrow> jsval \<Rightarrow> nat \<Rightarrow> nat \<Rightarrow> nat \<Rightarrow>
   's gen_state \<Rightarrow> (error + jsval \<times> jsval list) \<times> 's" where
  "cell_scan na sh seed r c i st =
     (let mat = \<lparr>row = r, col = c, elements = g_elements st\<rparr> in
      case getRowIndex mat (int i) of Inl e \<Rightarrow> (Inl e, g_cache st) | Inr rowIndex \<Rightarrow>
      case getColIndex mat (int i) of Inl e \<Rightarrow> (Inl e, g_cache st) | Inr colIndex \<Rightarrow>
      case reseed na mat rowIndex colIndex (g_subs st) (g_cache st) of
        (Inl e, s1) \<Rightarrow> (Inl e, s1)
      | (Inr subs1, s1) \<Rightarrow>
          (let subs2 = sh subs1 seed
           in scan na mat rowIndex colIndex subs2 (Undefined, subs2) s1))"

text \<open>
  The whole body: after the candidates, the cell is written, or the mode decides what
  happens to a cell that has no element.
\<close>

definition cell_body ::
  "'s lookup \<Rightarrow> (jsval list \<Rightarrow> jsval \<Rightarrow> jsval list) \<Rightarrow> (jsval \<Rightarrow> real) \<Rightarrow> jsval list \<Rightarrow>
   string \<Rightarrow> jsval \<Rightarrow> nat \<Rightarrow> nat \<Rightarrow> nat \<Rightarrow> 's gen_state \<Rightarrow> 's step" where
  "cell_body na sh fr nodes mode seed r c i st =
     (case cell_scan na sh seed r c i st of
        (Inl e, s1) \<Rightarrow> Throw e (st\<lparr>g_cache := s1\<rparr>)
      | (Inr (element, subs3), s2) \<Rightarrow>
          (if falsy element then
             (if mode = ''quality'' then
                Break (st\<lparr>g_score := i, g_subs := subs3, g_cache := s2\<rparr>)
              else if mode = ''fill'' then
                (let localAliases = (if subs3 \<noteq> [] then subs3 else nodes);
                     element' = Sample fr localAliases seed;
                     (subs4, s3) = na XN element' s2
                 in Next (st\<lparr>g_elements := (g_elements st)[i := element'],
                              g_subs := subs4, g_cache := s3\<rparr>))
              else Throw (UnknownMode mode) (st\<lparr>g_subs := subs3, g_cache := s2\<rparr>))
           else Next (st\<lparr>g_elements := (g_elements st)[i := element],
                         g_subs := subs3, g_cache := s2\<rparr>)))"

text \<open>The loop over the cells, \<open>for (let i = 0; i < len; i++)\<close>, over the offsets.\<close>

fun cells_loop ::
  "'s lookup \<Rightarrow> (jsval list \<Rightarrow> jsval \<Rightarrow> jsval list) \<Rightarrow> (jsval \<Rightarrow> real) \<Rightarrow> jsval list \<Rightarrow>
   string \<Rightarrow> jsval \<Rightarrow> nat \<Rightarrow> nat \<Rightarrow> nat list \<Rightarrow> 's gen_state \<Rightarrow> 's step" where
  "cells_loop na sh fr nodes mode seed r c [] st = Next st"
| "cells_loop na sh fr nodes mode seed r c (i # rest) st =
     (case cell_body na sh fr nodes mode seed r c i st of
        Next st' \<Rightarrow> cells_loop na sh fr nodes mode seed r c rest st'
      | Break st' \<Rightarrow> Break st'
      | Throw e st' \<Rightarrow> Throw e st')"

text \<open>
  \<open>score / mat.size\<close>, a quotient of two natural numbers: \<open>0 / 0\<close> is \<open>NaN\<close>. The
  quotient is exact here; the source rounds it to a double.
\<close>

datatype jsquot = Quot rat | Infinity | QNaN

definition js_div :: "nat \<Rightarrow> nat \<Rightarrow> jsquot" where
  "js_div a b =
     (if b = 0 then (if a = 0 then QNaN else Infinity)
      else Quot (Fract (int a) (int b)))"

record gen_result =
  res_score :: jsquot
  res_matrix :: vmatrix

record gen_options =
  opt_useCache :: "bool option"
  opt_mode :: "string option"

text \<open>\<open>nodes\<close>: the flags of the registry, each once.\<close>

definition all_nodes :: "flagmap \<Rightarrow> jsval list" where
  "all_nodes fl = uniq (map (\<lambda>(key, v). Num v) fl)"

text \<open>The variables as the loop over the cells finds them.\<close>

definition gen_init :: "flagmap \<Rightarrow> vmatrix \<Rightarrow> 's \<Rightarrow> 's gen_state" where
  "gen_init fl mat s =
     \<lparr>g_elements = elements mat, g_score = size_of mat, g_subs = all_nodes fl, g_cache = s\<rparr>"

text \<open>
  The \<open>return\<close>: the score over the size, and \<open>mat\<close> restored. The array of \<open>mat\<close>
  is the only array of the store that \<open>restore\<close> gets.
\<close>

definition gen_return :: "flagmap \<Rightarrow> vmatrix \<Rightarrow> jsval \<Rightarrow> 's gen_state \<Rightarrow> (error + gen_result) \<times> 's" where
  "gen_return fl mat ambient st =
     (case restore fl (store_of (g_elements st)) \<lparr>row = row mat, col = col mat, elements = 0\<rparr> ambient of
        (Inl e, h) \<Rightarrow> (Inl e, g_cache st)
      | (Inr res, h) \<Rightarrow>
          (Inr \<lparr>res_score = js_div (g_score st) (size_of mat), res_matrix = deref h res\<rparr>,
           g_cache st))"

text \<open>
  The body of \<open>generate\<close> after the options are read, over any lookup: the matrix of
  zeros, the loop, and the result.
\<close>

definition generate_with ::
  "'s lookup \<Rightarrow> (jsval list \<Rightarrow> jsval \<Rightarrow> jsval list) \<Rightarrow> (jsval \<Rightarrow> real) \<Rightarrow> flagmap \<Rightarrow>
   nat \<Rightarrow> nat \<Rightarrow> jsval \<Rightarrow> jsval \<Rightarrow> string \<Rightarrow> 's \<Rightarrow> (error + gen_result) \<times> 's" where
  "generate_with na sh fr fl r c ambient seed mode s =
     (let sz = r * c in
      case new_Matrix r c (replicate sz (Num 0)) of
        Inl e \<Rightarrow> (Inl e, s)
      | Inr mat \<Rightarrow>
          (case cells_loop na sh fr (all_nodes fl) mode seed r c [0..<length (elements mat)]
                  (gen_init fl mat s) of
             Throw e st \<Rightarrow> (Inl e, g_cache st)
           | Break st \<Rightarrow> gen_return fl mat ambient st
           | Next st \<Rightarrow> gen_return fl mat ambient st))"

text \<open>
  The options of a call over the defaults, \<open>{...DefGenerateOptions, ...options}\<close>.
\<close>

definition use_cache_of :: "gen_options \<Rightarrow> bool" where
  "use_cache_of options = (case opt_useCache options of None \<Rightarrow> True | Some b \<Rightarrow> b)"

definition mode_of :: "gen_options \<Rightarrow> string" where
  "mode_of options = (case opt_mode options of None \<Rightarrow> ''quality'' | Some m \<Rightarrow> m)"

text \<open>
  \<open>generate\<close>: the options, the closure of \<open>UseCache\<close>, and the trainer as the call
  leaves it (the default cache, when it is used).
\<close>

definition generate ::
  "(jsval list \<Rightarrow> jsval \<Rightarrow> jsval list) \<Rightarrow> (jsval \<Rightarrow> real) \<Rightarrow> trainer \<Rightarrow>
   nat \<Rightarrow> nat \<Rightarrow> jsval \<Rightarrow> jsval \<Rightarrow> gen_options \<Rightarrow> (error + gen_result) \<times> trainer" where
  "generate sh fr t r c ambient seed options =
     (let useCache' = use_cache_of options;
          mode' = mode_of options;
          (res, c') = generate_with (UseCache_nextAliases t) sh fr (flags t) r c ambient seed
                        mode' (cache_of t useCache')
      in (res, store_cache t useCache' c'))"

section \<open>Notions for the statements\<close>

text \<open>
  Two lookups agree under a relation of their states when, from related states, they
  return the same neighbours and leave related states.
\<close>

definition lookup_rel :: "('s \<Rightarrow> 'u \<Rightarrow> bool) \<Rightarrow> 's lookup \<Rightarrow> 'u lookup \<Rightarrow> bool" where
  "lookup_rel R na nb =
     (\<forall>ax e s u. R s u \<longrightarrow> fst (na ax e s) = fst (nb ax e u) \<and> R (snd (na ax e s)) (snd (nb ax e u)))"

definition res_rel :: "('s \<Rightarrow> 'u \<Rightarrow> bool) \<Rightarrow> 'a \<times> 's \<Rightarrow> 'a \<times> 'u \<Rightarrow> bool" where
  "res_rel R p q = (fst p = fst q \<and> R (snd p) (snd q))"

definition state_rel :: "('s \<Rightarrow> 'u \<Rightarrow> bool) \<Rightarrow> 's gen_state \<Rightarrow> 'u gen_state \<Rightarrow> bool" where
  "state_rel R st su =
     (g_elements st = g_elements su \<and> g_score st = g_score su \<and> g_subs st = g_subs su \<and>
      R (g_cache st) (g_cache su))"

fun step_rel :: "('s \<Rightarrow> 'u \<Rightarrow> bool) \<Rightarrow> 's step \<Rightarrow> 'u step \<Rightarrow> bool" where
  "step_rel R (Next st) (Next su) = state_rel R st su"
| "step_rel R (Break st) (Break su) = state_rel R st su"
| "step_rel R (Throw e st) (Throw e' su) = (e = e' \<and> state_rel R st su)"
| "step_rel R _ _ = False"

text \<open>
  The uncached query of the trainer on one of its two graphs, what the closure over a
  cache returns for an element (the entry of the cache, or the uncached query where
  the cache has none), and the lookup without a state that a function gives.
\<close>

definition expanded :: "trainer \<Rightarrow> axis \<Rightarrow> jsval \<Rightarrow> jsval list" where
  "expanded t ax element = nextAliases t (relation_of t ax) element"

definition cached_view :: "trainer \<Rightarrow> cache \<Rightarrow> axis \<Rightarrow> jsval \<Rightarrow> jsval list" where
  "cached_view t c ax element =
     (case c ax of
        None \<Rightarrow> expanded t ax element
      | Some tab \<Rightarrow> (case tab element of None \<Rightarrow> expanded t ax element | Some v \<Rightarrow> v))"

definition pure_lookup :: "(axis \<Rightarrow> jsval \<Rightarrow> jsval list) \<Rightarrow> unit lookup" where
  "pure_lookup f ax element u = (f ax element, u)"

text \<open>
  What the lookups of one call of \<open>generate\<close> return: the view of the cache the call
  starts from. The matrix of zeros of the call, the loop over its first \<open>n\<close> cells, and
  the loop over the candidates of cell \<open>i\<close>, are written with that view.
\<close>

definition call_view :: "trainer \<Rightarrow> gen_options \<Rightarrow> axis \<Rightarrow> jsval \<Rightarrow> jsval list" where
  "call_view t options = cached_view t (cache_of t (use_cache_of options))"

definition zero_matrix :: "nat \<Rightarrow> nat \<Rightarrow> vmatrix" where
  "zero_matrix r c = \<lparr>row = r, col = c, elements = replicate (r * c) (Num 0)\<rparr>"

definition cells_upto ::
  "(jsval list \<Rightarrow> jsval \<Rightarrow> jsval list) \<Rightarrow> (jsval \<Rightarrow> real) \<Rightarrow> trainer \<Rightarrow> jsval \<Rightarrow>
   gen_options \<Rightarrow> nat \<Rightarrow> nat \<Rightarrow> nat \<Rightarrow> unit step" where
  "cells_upto sh fr t seed options r c n =
     cells_loop (pure_lookup (call_view t options)) sh fr (all_nodes (flags t)) (mode_of options)
       seed r c [0..<n] (gen_init (flags t) (zero_matrix r c) ())"

definition scan_at ::
  "(jsval list \<Rightarrow> jsval \<Rightarrow> jsval list) \<Rightarrow> trainer \<Rightarrow> jsval \<Rightarrow> gen_options \<Rightarrow> nat \<Rightarrow> nat \<Rightarrow>
   nat \<Rightarrow> unit gen_state \<Rightarrow> error + jsval \<times> jsval list" where
  "scan_at sh t seed options r c i st =
     fst (cell_scan (pure_lookup (call_view t options)) sh seed r c i st)"

definition default_options :: gen_options where
  "default_options = \<lparr>opt_useCache = None, opt_mode = None\<rparr>"

text \<open>The variables a step of the loop over the cells leaves behind.\<close>

fun state_of :: "'s step \<Rightarrow> 's gen_state" where
  "state_of (Next st) = st"
| "state_of (Break st) = st"
| "state_of (Throw e st) = st"

section \<open>Example trainers\<close>

text \<open>
  Trainer states for the closed examples: two flags with one edge from the first to the
  second on either axis, and one flag with no edge.
\<close>

definition chain_trainer :: trainer where
  "chain_trainer =
     \<lparr>flags = [(Str ''A'', 1), (Str ''B'', 2)],
      xn = \<lparr>relations = [(1, [2])], subAliasEntry = None\<rparr>,
      yn = \<lparr>relations = [(1, [2])], subAliasEntry = None\<rparr>,
      sim = \<lparr>relations = [], subAliasEntry = None\<rparr>\<rparr>"

definition lone_trainer :: trainer where
  "lone_trainer =
     \<lparr>flags = [(Str ''A'', 1)],
      xn = \<lparr>relations = [], subAliasEntry = None\<rparr>,
      yn = \<lparr>relations = [], subAliasEntry = None\<rparr>,
      sim = \<lparr>relations = [], subAliasEntry = None\<rparr>\<rparr>"

text \<open>
  One flag with an edge to itself on either axis; three flags of which the third
  follows itself on either axis and the first lies below the second; and two flags
  that follow each other and themselves on either axis.
\<close>

definition loop_trainer :: trainer where
  "loop_trainer =
     \<lparr>flags = [(Str ''A'', 1)],
      xn = \<lparr>relations = [(1, [1])], subAliasEntry = None\<rparr>,
      yn = \<lparr>relations = [(1, [1])], subAliasEntry = None\<rparr>,
      sim = \<lparr>relations = [], subAliasEntry = None\<rparr>\<rparr>"

definition diag_trainer :: trainer where
  "diag_trainer =
     \<lparr>flags = [(Str ''A'', 1), (Str ''B'', 2), (Str ''C'', 3)],
      xn = \<lparr>relations = [(3, [3])], subAliasEntry = None\<rparr>,
      yn = \<lparr>relations = [(2, [1]), (3, [3])], subAliasEntry = None\<rparr>,
      sim = \<lparr>relations = [], subAliasEntry = None\<rparr>\<rparr>"

definition two_trainer :: trainer where
  "two_trainer =
     \<lparr>flags = [(Str ''A'', 1), (Str ''B'', 2)],
      xn = \<lparr>relations = [(1, [1, 2]), (2, [1, 2])], subAliasEntry = None\<rparr>,
      yn = \<lparr>relations = [(1, [1, 2]), (2, [1, 2])], subAliasEntry = None\<rparr>,
      sim = \<lparr>relations = [], subAliasEntry = None\<rparr>\<rparr>"

text \<open>
  The trainer that has learnt the grid of one \<open>A\<close>, has generated once, and has then
  learnt the grid of two rows of two \<open>A\<close>: its default cache still says that the flag
  \<open>1\<close> has no expanded neighbour.
\<close>

definition stale_trainer :: trainer where
  "stale_trainer =
     \<lparr>flags = [(Str ''A'', 1)],
      xn = \<lparr>relations = [(1, [1, 1])], subAliasEntry = Some [Num 1 \<mapsto> []]\<rparr>,
      yn = \<lparr>relations = [(1, [1, 1])], subAliasEntry = Some [Num 1 \<mapsto> []]\<rparr>,
      sim = \<lparr>relations = [], subAliasEntry = None\<rparr>\<rparr>"

text \<open>
  Modelled from the spec: the library method \<open>to\<close>, as the \<open>addEdge(a, b)\<close> of the
  spec, for the examples that train: \<open>b\<close> is appended to the neighbours of \<open>a\<close>, and
  the store may hold an edge more than once.
\<close>

definition addEdge :: "relationship \<Rightarrow> int \<Rightarrow> int \<Rightarrow> relationship" where
  "addEdge r a b =
     r\<lparr>relations := map_set a ((case map_of (relations r) a of None \<Rightarrow> [] | Some l \<Rightarrow> l) @ [b])
                       (relations r)\<rparr>"

text \<open>
  A \<open>Map\<close> has one entry for a key: the lists of entries of a trainer state that stand
  for maps. And the default cache agrees with the graphs when what it returns is what
  the uncached query returns.
\<close>

definition one_entry_per_key :: "trainer \<Rightarrow> bool" where
  "one_entry_per_key t =
     (distinct (map fst (flags t)) \<and> distinct (map fst (relations (xn t))) \<and>
      distinct (map fst (relations (yn t))) \<and> distinct (map fst (relations (sim t))))"

definition cache_agrees :: "trainer \<Rightarrow> bool" where
  "cache_agrees t = (cached_view t (cache_of t True) = expanded t)"

text \<open>
  Modelled from the spec: the library method \<open>merge\<close>, as the \<open>mergeEdges(list)\<close> of
  the spec, for the examples that call \<open>ally\<close>: every edge of the list is added.
\<close>

definition mergeEdges :: "relationship \<Rightarrow> (int \<times> int list) list \<Rightarrow> relationship" where
  "mergeEdges r ds = fold (\<lambda>(a, bs) r'. fold (\<lambda>b r''. addEdge r'' a b) bs r') ds r"

section \<open>The registry over a sequence of operations\<close>

text \<open>
  The flags of a registry are dense when they are \<open>1, 2, ..., size\<close> in the order of the
  entries, one entry for an element.
\<close>

definition flags_dense :: "flagmap \<Rightarrow> bool" where
  "flags_dense fl = (distinct (map fst fl) \<and> map snd fl = map int [1..<Suc (length fl)])"

text \<open>
  The operations that change a trainer, and a sequence of them. \<open>ensureFlag\<close> and
  \<open>embedding\<close> change the registry only; \<open>generate\<close> changes the default cache only.
\<close>

datatype op =
    OpEnsureFlag jsval
  | OpEmbedding vmatrix
  | OpAlly "(jsval \<times> jsval list) list"
  | OpTrain vmatrix
  | OpLoad dataset
  | OpGenerate nat nat jsval jsval gen_options

fun apply_op ::
  "(relationship \<Rightarrow> int \<Rightarrow> int \<Rightarrow> relationship) \<Rightarrow>
   (relationship \<Rightarrow> (int \<times> int list) list \<Rightarrow> relationship) \<Rightarrow>
   (jsval list \<Rightarrow> jsval \<Rightarrow> jsval list) \<Rightarrow> (jsval \<Rightarrow> real) \<Rightarrow> op \<Rightarrow> trainer \<Rightarrow> trainer" where
  "apply_op to_fn merge_fn sh fr (OpEnsureFlag key) t = t\<lparr>flags := snd (ensureFlag key (flags t))\<rparr>"
| "apply_op to_fn merge_fn sh fr (OpEmbedding m) t = t\<lparr>flags := snd (embedding m (flags t))\<rparr>"
| "apply_op to_fn merge_fn sh fr (OpAlly groups) t = ally merge_fn groups t"
| "apply_op to_fn merge_fn sh fr (OpTrain m) t = snd (train to_fn m t)"
| "apply_op to_fn merge_fn sh fr (OpLoad ds) t = load ds t"
| "apply_op to_fn merge_fn sh fr (OpGenerate r c ambient seed options) t =
     snd (generate sh fr t r c ambient seed options)"

definition run_ops ::
  "(relationship \<Rightarrow> int \<Rightarrow> int \<Rightarrow> relationship) \<Rightarrow>
   (relationship \<Rightarrow> (int \<times> int list) list \<Rightarrow> relationship) \<Rightarrow>
   (jsval list \<Rightarrow> jsval \<Rightarrow> jsval list) \<Rightarrow> (jsval \<Rightarrow> real) \<Rightarrow> op list \<Rightarrow> trainer \<Rightarrow> trainer" where
  "run_ops to_fn merge_fn sh fr ops t = fold (apply_op to_fn merge_fn sh fr) ops t"

text \<open>Every dataset that the sequence loads has a dense table of flags.\<close>

fun load_is_dense :: "op \<Rightarrow> bool" where
  "load_is_dense (OpLoad ds) = flags_dense (new_Map (fst ds))"
| "load_is_dense _ = True"

definition loads_dense :: "op list \<Rightarrow> bool" where
  "loads_dense ops = list_all load_is_dense ops"

section \<open>Elementwise operations and the size test\<close>

lemma SizeMatch_iff: "SizeMatch a b \<longleftrightarrow> row a = row b \<and> col a = row b"
  by (simp add: SizeMatch_def)

lemma Add_raises_iff:
  "Add a b = Inl SizeNotMatch \<longleftrightarrow> \<not> (row a = row b \<and> col a = row b)"
  by (simp add: Add_def SizeMatch_def new_Matrix_def)

lemma Sub_raises_iff:
  "Sub a b = Inl SizeNotMatch \<longleftrightarrow> \<not> (row a = row b \<and> col a = row b)"
  by (simp add: Sub_def SizeMatch_def new_Matrix_def)

text \<open>
  C8. Two grids of the same shape, two rows by three columns: \<open>Add\<close> and \<open>Sub\<close> raise
  \<open>SizeNotMatch\<close>, because \<open>SizeMatch\<close> compares the column count of the first grid with
  the row count of the second. And two grids of different shapes, two by two and two
  by three, are added without an error, over the first four elements of the second.
\<close>

theorem Add_same_shape_raises:
  "Add \<lparr>row = 2, col = 3, elements = [Num 1, Num 2, Num 3, Num 4, Num 5, Num 6]\<rparr>
       \<lparr>row = 2, col = 3, elements = [Num 1, Num 1, Num 1, Num 1, Num 1, Num 1]\<rparr>
     = Inl SizeNotMatch
   \<and> Sub \<lparr>row = 2, col = 3, elements = [Num 1, Num 2, Num 3, Num 4, Num 5, Num 6]\<rparr>
         \<lparr>row = 2, col = 3, elements = [Num 1, Num 1, Num 1, Num 1, Num 1, Num 1]\<rparr>
     = Inl SizeNotMatch
   \<and> Add \<lparr>row = 2, col = 2, elements = [Num 1, Num 2, Num 3, Num 4]\<rparr>
         \<lparr>row = 2, col = 3, elements = [Num 10, Num 20, Num 30, Num 40, Num 50, Num 60]\<rparr>
     = Inr \<lparr>row = 2, col = 2, elements = [Num 11, Num 22, Num 33, Num 44]\<rparr>"
  by (simp add: Add_def Sub_def SizeMatch_def new_Matrix_def js_nth_def upt_rec)

section \<open>Maps and restore\<close>

lemma map_set_absent: "k \<notin> fst ` set m \<Longrightarrow> map_set k v m = m @ [(k, v)]"
  by (induction m) (auto simp: map_set_def)

lemma fold_map_set_distinct:
  "distinct (map fst (acc @ es)) \<Longrightarrow> fold (\<lambda>(k, v). map_set k v) es acc = acc @ es"
proof (induction es arbitrary: acc)
  case Nil
  then show ?case by simp
next
  case (Cons p es)
  obtain k v where p: "p = (k, v)" by (cases p)
  from Cons.prems have "k \<notin> fst ` set acc" by (auto simp: p)
  then have "map_set k v acc = acc @ [(k, v)]" by (rule map_set_absent)
  moreover from Cons.prems have "distinct (map fst ((acc @ [(k, v)]) @ es))" by (simp add: p)
  ultimately show ?case using Cons.IH[of "acc @ [(k, v)]"] by (simp add: p)
qed

lemma new_Map_distinct: "distinct (map fst es) \<Longrightarrow> new_Map es = es"
  using fold_map_set_distinct[of "[]" es] by (simp add: new_Map_def)

lemma distinct_map_set: "distinct (map fst m) \<Longrightarrow> distinct (map fst (map_set k v m))"
  by (simp add: map_set_def distinct_update)

lemma distinct_fold_map_set:
  "distinct (map fst acc) \<Longrightarrow> distinct (map fst (fold (\<lambda>(k, v). map_set k v) es acc))"
  by (induction es arbitrary: acc) (auto simp: distinct_map_set)

lemma distinct_new_Map: "distinct (map fst (new_Map es))"
  by (simp add: new_Map_def distinct_fold_map_set)

lemma restore_fold:
  assumes "n \<le> length (h a)"
  shows "fold (restore_step fl fill a a) [0..<n] h
           = h(a := map (restore_cell fl fill) (take n (h a)) @ drop n (h a))"
  using assms
proof (induction n)
  case 0
  then show ?case by simp
next
  case (Suc n)
  then have n: "n < length (h a)" by simp
  have ih: "fold (restore_step fl fill a a) [0..<n] h
          = h(a := map (restore_cell fl fill) (take n (h a)) @ drop n (h a))"
    using Suc.IH n by linarith
  have "fold (restore_step fl fill a a) [0..<Suc n] h
          = restore_step fl fill a a n (fold (restore_step fl fill a a) [0..<n] h)"
    by simp
  also have "\<dots> = restore_step fl fill a a n (h(a := map (restore_cell fl fill) (take n (h a)) @ drop n (h a)))"
    by (simp only: ih)
  also have "\<dots> = h(a := map (restore_cell fl fill) (take (Suc n) (h a)) @ drop (Suc n) (h a))"
    using n
    by (simp add: restore_step_def js_nth_def nth_append take_Suc_conv_app_nth
        list_update_append Cons_nth_drop_Suc[symmetric])
  finally show ?case .
qed

lemma restore_result:
  assumes "row m * col m = length (h (elements m))"
  shows "restore fl h m fill
           = (Inr \<lparr>row = row m, col = col m, elements = elements m\<rparr>,
              h(elements m := map (restore_cell fl fill) (h (elements m))))"
  using assms restore_fold[of "length (h (elements m))" h "elements m" fl fill]
  by (simp add: restore_def new_Matrix_ref_def)

lemma restore_raises:
  assumes "row m * col m \<noteq> length (h (elements m))"
  shows "restore fl h m fill = (Inl (SizeMismatch (row m * col m) (length (h (elements m)))), h)"
  using assms by (simp add: restore_def new_Matrix_ref_def)

lemma gen_return_result:
  assumes "length (g_elements st) = row mat * col mat"
  shows "gen_return fl mat ambient st
           = (Inr \<lparr>res_score = js_div (g_score st) (size_of mat),
                   res_matrix = \<lparr>row = row mat, col = col mat,
                                 elements = map (restore_cell fl ambient) (g_elements st)\<rparr>\<rparr>,
              g_cache st)"
  using assms restore_result[of "\<lparr>row = row mat, col = col mat, elements = 0\<rparr>" "store_of (g_elements st)" fl ambient]
  by (simp add: gen_return_def deref_def store_of_def)

text \<open>Every example trainer is what \<open>load\<close> makes of a dataset.\<close>

lemma example_trainers_loaded:
  "load ([(Str ''A'', 1), (Str ''B'', 2)], [(1, [2])], [(1, [2])], []) new_MatrixTrainer = chain_trainer"
  "load ([(Str ''A'', 1)], [], [], []) new_MatrixTrainer = lone_trainer"
  "load ([(Str ''A'', 1)], [(1, [1])], [(1, [1])], []) new_MatrixTrainer = loop_trainer"
  "load ([(Str ''A'', 1), (Str ''B'', 2), (Str ''C'', 3)], [(3, [3])], [(2, [1]), (3, [3])], [])
     new_MatrixTrainer = diag_trainer"
  "load ([(Str ''A'', 1), (Str ''B'', 2)], [(1, [1, 2]), (2, [1, 2])], [(1, [1, 2]), (2, [1, 2])], [])
     new_MatrixTrainer = two_trainer"
  by (simp_all add: load_def new_MatrixTrainer_def new_Relationship_def new_Map_def map_set_def
      chain_trainer_def lone_trainer_def loop_trainer_def diag_trainer_def two_trainer_def)

section \<open>The matrix methods inside generate\<close>

lemma getElement_in_range:
  assumes "0 \<le> ri" "ri < int (row m)" "0 \<le> ci" "ci < int (col m)"
  shows "getElement m ri ci = Inr (js_nth (elements m) (ri * int (col m) + ci))"
  using assms by (simp add: getElement_def getIndex_def OutOfRange_def)

lemma connect_check_returns:
  assumes "0 \<le> ri" "ri < int (row mat)" "0 \<le> ci" "ci < int (col mat)"
  shows "\<exists>b. fst (connect_check na mat ri ci sub s) = Inr b"
proof (cases "hasTop mat ri \<and> hasLeft mat ci")
  case False
  then show ?thesis by (auto simp: connect_check_def)
next
  case True
  then have "0 \<le> ri - 1" "0 \<le> ci - 1"
    by (simp_all add: hasTop_def hasLeft_def OutOfRange_def)
  with assms have l: "getElement mat ri (ci - 1) = Inr (js_nth (elements mat) (ri * int (col mat) + (ci - 1)))"
    and t: "getElement mat (ri - 1) ci = Inr (js_nth (elements mat) ((ri - 1) * int (col mat) + ci))"
    by (simp_all add: getElement_in_range)
  show ?thesis using True
    by (simp add: connect_check_def l t split: prod.splits)
qed

lemma lookahead_check_returns:
  assumes "ri < int (row mat)"
  shows "\<exists>b. fst (lookahead_check na mat ri ci xAliases s) = Inr b"
proof (cases "hasTop mat ri \<and> hasLeft mat (ci + 2)")
  case False
  then show ?thesis by (auto simp: lookahead_check_def)
next
  case True
  then have "0 \<le> ri - 1" "0 \<le> ci + 1" "ci + 1 < int (col mat)"
    by (simp_all add: hasTop_def hasLeft_def OutOfRange_def)
  with assms have t: "getElement mat (ri - 1) (ci + 1) = Inr (js_nth (elements mat) ((ri - 1) * int (col mat) + (ci + 1)))"
    by (simp add: getElement_in_range)
  show ?thesis using True
    by (simp add: lookahead_check_def t split: prod.splits)
qed

lemma scan_returns:
  assumes "0 \<le> ri" "ri < int (row mat)" "0 \<le> ci" "ci < int (col mat)"
  shows "\<exists>el sb. fst (scan na mat ri ci cands (element, sbs) s) = Inr (el, sb)"
proof (induction cands arbitrary: element sbs s)
  case Nil
  then show ?case by simp
next
  case (Cons sub rest)
  obtain xA s1 where x: "na XN sub s = (xA, s1)" by (cases "na XN sub s")
  obtain yA s2 where y: "na YN sub s1 = (yA, s2)" by (cases "na YN sub s1")
  obtain xs s3 where p1: "push_all na YN xA [] s2 = (xs, s3)" by (cases "push_all na YN xA [] s2")
  obtain ys s4 where p2: "push_all na XN yA [] s3 = (ys, s4)" by (cases "push_all na XN yA [] s3")
  obtain cr s5 where c: "connect_check na mat ri ci sub s4 = (cr, s5)" by (cases "connect_check na mat ri ci sub s4")
  obtain lr s6 where l: "lookahead_check na mat ri ci xA s5 = (lr, s6)" by (cases "lookahead_check na mat ri ci xA s5")
  from connect_check_returns[OF assms, of na sub s4] c obtain cb where cb: "cr = Inr cb" by auto
  from lookahead_check_returns[OF assms(2), of na ci xA s5] l obtain lb where lb: "lr = Inr lb" by auto
  show ?case
    using Cons.IH by (cases cb; cases lb; simp add: x y p1 p2 c l cb lb)
qed

section \<open>The loop over the cells\<close>

lemma cell_coords:
  assumes "i < r * c" "length (g_elements st) = r * c"
  shows "getRowIndex \<lparr>row = r, col = c, elements = g_elements st\<rparr> (int i) = Inr (int (i div c))"
    and "getColIndex \<lparr>row = r, col = c, elements = g_elements st\<rparr> (int i) = Inr (int (i mod c))"
    and "i div c < r" and "i mod c < c"
proof -
  from assms(1) have c: "0 < c" by (cases c) simp_all
  from assms(1) have lt: "int i < int r * int c"
    by (metis of_nat_less_iff of_nat_mult)
  show "getRowIndex \<lparr>row = r, col = c, elements = g_elements st\<rparr> (int i) = Inr (int (i div c))"
    using assms lt by (simp add: getRowIndex_def OutOfRange_def zdiv_int)
  show "getColIndex \<lparr>row = r, col = c, elements = g_elements st\<rparr> (int i) = Inr (int (i mod c))"
    using assms lt by (simp add: getColIndex_def OutOfRange_def zmod_int)
  show "i div c < r" using assms(1) c by (simp add: div_less_iff_less_mult)
  show "i mod c < c" using c by simp
qed

lemma reseed_returns:
  assumes "0 \<le> ri" "ri < int (row mat)" "0 < col mat"
  shows "\<exists>sb. fst (reseed na mat ri ci sbs s) = Inr sb"
proof (cases "ci = 0 \<and> ri > 0")
  case False
  then show ?thesis by (auto simp: reseed_def)
next
  case True
  with assms have "getElement mat (ri - 1) 0 = Inr (js_nth (elements mat) ((ri - 1) * int (col mat) + 0))"
    by (intro getElement_in_range) simp_all
  then show ?thesis using True by (simp add: reseed_def case_prod_beta)
qed

lemma cell_scan_returns:
  assumes "i < r * c" "length (g_elements st) = r * c"
  shows "\<exists>el sb. fst (cell_scan na sh seed r c i st) = Inr (el, sb)"
proof -
  let ?mat = "\<lparr>row = r, col = c, elements = g_elements st\<rparr>"
  note co = cell_coords[OF assms]
  from co(4) have c: "0 < c" by simp
  from reseed_returns[of "int (i div c)" ?mat na "int (i mod c)" "g_subs st" "g_cache st"] co(3) c
  obtain sb1 where rs: "fst (reseed na ?mat (int (i div c)) (int (i mod c)) (g_subs st) (g_cache st)) = Inr sb1"
    by auto
  obtain s1 where rs': "reseed na ?mat (int (i div c)) (int (i mod c)) (g_subs st) (g_cache st) = (Inr sb1, s1)"
    using rs by (cases "reseed na ?mat (int (i div c)) (int (i mod c)) (g_subs st) (g_cache st)") simp
  from scan_returns[of "int (i div c)" ?mat "int (i mod c)" na "sh sb1 seed" Undefined "sh sb1 seed" s1] co(3,4)
  obtain el sb where "fst (scan na ?mat (int (i div c)) (int (i mod c)) (sh sb1 seed) (Undefined, sh sb1 seed) s1) = Inr (el, sb)"
    by auto
  then show ?thesis
    by (simp add: cell_scan_def co(1,2) rs' Let_def)
qed

lemma cell_body_accept:
  assumes "cell_scan na sh seed r c i st = (Inr (el, sb), s')" "\<not> falsy el"
  shows "cell_body na sh fr nodes mode seed r c i st
           = Next (st\<lparr>g_elements := (g_elements st)[i := el], g_subs := sb, g_cache := s'\<rparr>)"
  using assms by (simp add: cell_body_def)

lemma cell_body_quality_none:
  assumes "cell_scan na sh seed r c i st = (Inr (el, sb), s')" "falsy el"
  shows "cell_body na sh fr nodes ''quality'' seed r c i st
           = Break (st\<lparr>g_score := i, g_subs := sb, g_cache := s'\<rparr>)"
  using assms by (simp add: cell_body_def)

lemma cell_body_fill_none:
  assumes "cell_scan na sh seed r c i st = (Inr (el, sb), s')" "falsy el"
  shows "cell_body na sh fr nodes ''fill'' seed r c i st
           = Next (st\<lparr>g_elements := (g_elements st)[i := Sample fr (if sb \<noteq> [] then sb else nodes) seed],
                       g_subs := fst (na XN (Sample fr (if sb \<noteq> [] then sb else nodes) seed) s'),
                       g_cache := snd (na XN (Sample fr (if sb \<noteq> [] then sb else nodes) seed) s')\<rparr>)"
  using assms by (simp add: cell_body_def Let_def case_prod_beta)

lemma cell_body_other_none:
  assumes "cell_scan na sh seed r c i st = (Inr (el, sb), s')" "falsy el"
    "mode \<noteq> ''quality''" "mode \<noteq> ''fill''"
  shows "cell_body na sh fr nodes mode seed r c i st
           = Throw (UnknownMode mode) (st\<lparr>g_subs := sb, g_cache := s'\<rparr>)"
  using assms by (simp add: cell_body_def)

lemma cell_body_frame:
  "length (g_elements (state_of (cell_body na sh fr nodes mode seed r c i st))) = length (g_elements st)
   \<and> (\<forall>j. j \<noteq> i \<longrightarrow> g_elements (state_of (cell_body na sh fr nodes mode seed r c i st)) ! j = g_elements st ! j)"
  by (simp add: cell_body_def Let_def case_prod_beta split: sum.splits prod.splits)

lemma cell_body_next_score:
  "cell_body na sh fr nodes mode seed r c i st = Next st' \<Longrightarrow> g_score st' = g_score st"
  by (auto simp: cell_body_def Let_def case_prod_beta split: sum.splits prod.splits if_splits)

lemma cells_loop_append:
  "cells_loop na sh fr nodes mode seed r c (xs @ ys) st
     = (case cells_loop na sh fr nodes mode seed r c xs st of
          Next st' \<Rightarrow> cells_loop na sh fr nodes mode seed r c ys st'
        | Break st' \<Rightarrow> Break st'
        | Throw e st' \<Rightarrow> Throw e st')"
  by (induction xs arbitrary: st) (simp_all split: step.splits)

lemma cells_loop_frame:
  "length (g_elements (state_of (cells_loop na sh fr nodes mode seed r c is st))) = length (g_elements st)
   \<and> (\<forall>j. j \<notin> set is \<longrightarrow> g_elements (state_of (cells_loop na sh fr nodes mode seed r c is st)) ! j = g_elements st ! j)"
proof (induction "is" arbitrary: st)
  case Nil
  then show ?case by simp
next
  case (Cons i rest)
  show ?case
  proof (cases "cell_body na sh fr nodes mode seed r c i st")
    case (Next st')
    with cell_body_frame[of na sh fr nodes mode seed r c i st] Cons.IH[of st']
    show ?thesis by simp
  next
    case (Break st')
    with cell_body_frame[of na sh fr nodes mode seed r c i st] show ?thesis by simp
  next
    case (Throw e st')
    with cell_body_frame[of na sh fr nodes mode seed r c i st] show ?thesis by simp
  qed
qed

lemma cells_loop_next_score:
  "cells_loop na sh fr nodes mode seed r c is st = Next st' \<Longrightarrow> g_score st' = g_score st"
proof (induction "is" arbitrary: st)
  case Nil
  then show ?case by simp
next
  case (Cons i rest)
  then show ?case
    by (cases "cell_body na sh fr nodes mode seed r c i st")
       (auto dest: cell_body_next_score)
qed

lemma cell_body_fill_next:
  assumes "i < r * c" "length (g_elements st) = r * c"
  shows "\<exists>st'. cell_body na sh fr nodes ''fill'' seed r c i st = Next st'"
proof -
  from cell_scan_returns[OF assms, of na sh seed] obtain el sb s'
    where cs: "cell_scan na sh seed r c i st = (Inr (el, sb), s')"
    by (cases "cell_scan na sh seed r c i st") auto
  show ?thesis
    by (cases "falsy el") (simp_all add: cell_body_fill_none[OF cs] cell_body_accept[OF cs])
qed

lemma cells_loop_fill_next:
  assumes "\<forall>i \<in> set is. i < r * c" "length (g_elements st) = r * c"
  shows "\<exists>st'. cells_loop na sh fr nodes ''fill'' seed r c is st = Next st'"
  using assms
proof (induction "is" arbitrary: st)
  case Nil
  then show ?case by simp
next
  case (Cons i rest)
  from Cons.prems have i: "i < r * c" by simp
  from cell_body_fill_next[OF i Cons.prems(2), of na sh fr nodes seed]
  obtain st' where b: "cell_body na sh fr nodes ''fill'' seed r c i st = Next st'" by auto
  from cell_body_frame[of na sh fr nodes "''fill''" seed r c i st] b Cons.prems(2)
  have "length (g_elements st') = r * c" by simp
  with Cons.IH[of st'] Cons.prems(1) b show ?case by simp
qed

lemma cell_body_other_mode:
  assumes "mode \<noteq> ''quality''" "mode \<noteq> ''fill''"
  shows "cell_body na sh fr nodes mode seed r c i st
           = (case cell_body na sh fr nodes ''quality'' seed r c i st of
                Break st' \<Rightarrow> Throw (UnknownMode mode) (st'\<lparr>g_score := g_score st\<rparr>)
              | Next st' \<Rightarrow> Next st'
              | Throw e st' \<Rightarrow> Throw e st')"
  using assms by (simp add: cell_body_def split: sum.splits prod.splits)

lemma cells_loop_other_mode:
  assumes "mode \<noteq> ''quality''" "mode \<noteq> ''fill''"
  shows "cells_loop na sh fr nodes mode seed r c is st
           = (case cells_loop na sh fr nodes ''quality'' seed r c is st of
                Break st' \<Rightarrow> Throw (UnknownMode mode) (st'\<lparr>g_score := g_score st\<rparr>)
              | Next st' \<Rightarrow> Next st'
              | Throw e st' \<Rightarrow> Throw e st')"
proof (induction "is" arbitrary: st)
  case Nil
  then show ?case by simp
next
  case (Cons i rest)
  show ?case
  proof (cases "cell_body na sh fr nodes ''quality'' seed r c i st")
    case (Next st')
    then have "g_score st' = g_score st" by (rule cell_body_next_score)
    then show ?thesis using Next Cons.IH[of st'] cell_body_other_mode[OF assms, of na sh fr nodes seed r c i st]
      by (simp split: step.splits)
  next
    case (Break st')
    then show ?thesis using cell_body_other_mode[OF assms, of na sh fr nodes seed r c i st] by simp
  next
    case (Throw e st')
    then show ?thesis using cell_body_other_mode[OF assms, of na sh fr nodes seed r c i st] by simp
  qed
qed

lemma cell_body_quality_no_throw:
  assumes "i < r * c" "length (g_elements st) = r * c"
  shows "cell_body na sh fr nodes ''quality'' seed r c i st \<noteq> Throw e st'"
proof -
  from cell_scan_returns[OF assms, of na sh seed] obtain el sb s'
    where cs: "cell_scan na sh seed r c i st = (Inr (el, sb), s')"
    by (cases "cell_scan na sh seed r c i st") auto
  show ?thesis
    by (cases "falsy el") (simp_all add: cell_body_quality_none[OF cs] cell_body_accept[OF cs])
qed

lemma cells_loop_quality_no_throw:
  assumes "\<forall>i \<in> set is. i < r * c" "length (g_elements st) = r * c"
  shows "cells_loop na sh fr nodes ''quality'' seed r c is st \<noteq> Throw e st'"
  using assms
proof (induction "is" arbitrary: st)
  case Nil
  then show ?case by simp
next
  case (Cons i rest)
  from Cons.prems have i: "i < r * c" by simp
  show ?case
  proof (cases "cell_body na sh fr nodes ''quality'' seed r c i st")
    case (Next st1)
    from cell_body_frame[of na sh fr nodes "''quality''" seed r c i st] Next Cons.prems(2)
    have "length (g_elements st1) = r * c" by simp
    with Cons.IH[of st1] Cons.prems(1) Next show ?thesis by simp
  next
    case (Break st1)
    then show ?thesis by simp
  next
    case (Throw e1 st1)
    with cell_body_quality_no_throw[OF i Cons.prems(2), of na sh fr nodes seed e1 st1]
    show ?thesis by simp
  qed
qed

section \<open>Lookups that agree\<close>

lemma lookup_relD:
  assumes "lookup_rel R na nb" "R s u"
  obtains a s1 u1 where "na ax e s = (a, s1)" "nb ax e u = (a, u1)" "R s1 u1"
  using assms unfolding lookup_rel_def by (metis prod.collapse)

lemma res_relD:
  assumes "res_rel R p q"
  obtains a s1 u1 where "p = (a, s1)" "q = (a, u1)" "R s1 u1"
  using assms unfolding res_rel_def by (metis prod.collapse)

lemma res_relI: "R s1 u1 \<Longrightarrow> res_rel R (a, s1) (a, u1)"
  by (simp add: res_rel_def)

lemma push_all_rel:
  assumes "lookup_rel R na nb" "R s u"
  shows "res_rel R (push_all na ax xs acc s) (push_all nb ax xs acc u)"
  using assms(2)
proof (induction xs arbitrary: acc s u)
  case Nil
  then show ?case by (simp add: res_rel_def)
next
  case (Cons x xs)
  from lookup_relD[OF assms(1) Cons.prems, of ax x]
  obtain a s1 u1 where "na ax x s = (a, s1)" "nb ax x u = (a, u1)" "R s1 u1" .
  then show ?case using Cons.IH by simp
qed

lemma connect_check_rel:
  assumes "lookup_rel R na nb" "R s u"
  shows "res_rel R (connect_check na mat ri ci sub s) (connect_check nb mat ri ci sub u)"
proof (cases "hasTop mat ri \<and> hasLeft mat ci")
  case False
  then show ?thesis using assms(2) by (auto simp: connect_check_def res_rel_def)
next
  case True
  show ?thesis
  proof (cases "getElement mat ri (ci - 1)")
    case (Inl e)
    then show ?thesis using True assms(2) by (simp add: connect_check_def res_rel_def)
  next
    case (Inr le)
    from lookup_relD[OF assms, of XN le]
    obtain a s1 u1 where l: "na XN le s = (a, s1)" "nb XN le u = (a, u1)" "R s1 u1" .
    show ?thesis
    proof (cases "getElement mat (ri - 1) ci")
      case (Inl e)
      then show ?thesis using True Inr l by (simp add: connect_check_def res_rel_def)
    next
      case r2: (Inr te)
      from lookup_relD[OF assms(1) l(3), of YN te]
      obtain b s2 u2 where t: "na YN te s1 = (b, s2)" "nb YN te u1 = (b, u2)" "R s2 u2" .
      show ?thesis using True Inr r2 l t by (simp add: connect_check_def res_rel_def)
    qed
  qed
qed

lemma lookahead_check_rel:
  assumes "lookup_rel R na nb" "R s u"
  shows "res_rel R (lookahead_check na mat ri ci xA s) (lookahead_check nb mat ri ci xA u)"
proof (cases "hasTop mat ri \<and> hasLeft mat (ci + 2)")
  case False
  then show ?thesis using assms(2) by (auto simp: lookahead_check_def res_rel_def)
next
  case True
  show ?thesis
  proof (cases "getElement mat (ri - 1) (ci + 1)")
    case (Inl e)
    then show ?thesis using True assms(2) by (simp add: lookahead_check_def res_rel_def)
  next
    case (Inr nt)
    from lookup_relD[OF assms, of YN nt]
    obtain a s1 u1 where l: "na YN nt s = (a, s1)" "nb YN nt u = (a, u1)" "R s1 u1" .
    show ?thesis using True Inr l by (simp add: lookahead_check_def res_rel_def)
  qed
qed

lemma reseed_rel:
  assumes "lookup_rel R na nb" "R s u"
  shows "res_rel R (reseed na mat ri ci sbs s) (reseed nb mat ri ci sbs u)"
proof (cases "ci = 0 \<and> ri > 0")
  case False
  then show ?thesis using assms(2) by (auto simp: reseed_def res_rel_def)
next
  case True
  show ?thesis
  proof (cases "getElement mat (ri - 1) 0")
    case (Inl e)
    then show ?thesis using True assms(2) by (simp add: reseed_def res_rel_def)
  next
    case (Inr bf)
    from lookup_relD[OF assms, of YN bf]
    obtain a s1 u1 where l: "na YN bf s = (a, s1)" "nb YN bf u = (a, u1)" "R s1 u1" .
    show ?thesis using True Inr l by (simp add: reseed_def res_rel_def)
  qed
qed

lemma scan_rel:
  assumes "lookup_rel R na nb" "R s u"
  shows "res_rel R (scan na mat ri ci cands (element, sbs) s) (scan nb mat ri ci cands (element, sbs) u)"
  using assms(2)
proof (induction cands arbitrary: element sbs s u)
  case Nil
  then show ?case by (simp add: res_rel_def)
next
  case (Cons sub rest)
  note na = assms(1)
  from lookup_relD[OF na Cons.prems, of XN sub]
  obtain xA s1 u1 where x: "na XN sub s = (xA, s1)" "nb XN sub u = (xA, u1)" "R s1 u1" .
  from lookup_relD[OF na x(3), of YN sub]
  obtain yA s2 u2 where y: "na YN sub s1 = (yA, s2)" "nb YN sub u1 = (yA, u2)" "R s2 u2" .
  show ?case
  proof (cases "xA = [] \<or> yA = []")
    case True
    then show ?thesis using x y by (auto simp: res_rel_def)
  next
    case False
    from res_relD[OF push_all_rel[OF na y(3), of YN xA "[]"]]
    obtain xs s3 u3 where p1: "push_all na YN xA [] s2 = (xs, s3)" "push_all nb YN xA [] u2 = (xs, u3)" "R s3 u3" .
    from res_relD[OF push_all_rel[OF na p1(3), of XN yA "[]"]]
    obtain ys s4 u4 where p2: "push_all na XN yA [] s3 = (ys, s4)" "push_all nb XN yA [] u3 = (ys, u4)" "R s4 u4" .
    from res_relD[OF connect_check_rel[OF na p2(3), of mat ri ci sub]]
    obtain cr s5 u5 where c: "connect_check na mat ri ci sub s4 = (cr, s5)"
      "connect_check nb mat ri ci sub u4 = (cr, u5)" "R s5 u5" .
    from res_relD[OF lookahead_check_rel[OF na c(3), of mat ri ci xA]]
    obtain lr s6 u6 where l: "lookahead_check na mat ri ci xA s5 = (lr, s6)"
      "lookahead_check nb mat ri ci xA u5 = (lr, u6)" "R s6 u6" .
    show ?thesis
    proof (cases cr)
      case (Inl e)
      then show ?thesis using False x y p1 p2 c by (simp add: res_rel_def)
    next
      case (Inr cb)
      show ?thesis
      proof (cases cb)
        case cf: False
        then show ?thesis using False x y p1 p2 c Inr Cons.IH[OF c(3)] by simp
      next
        case ct: True
        show ?thesis
        proof (cases lr)
          case (Inl e)
          then show ?thesis using False x y p1 p2 c Inr ct l by (simp add: res_rel_def)
        next
          case lrr: (Inr lb)
          show ?thesis
            using False x y p1 p2 c Inr ct l lrr Cons.IH[OF l(3)] by (cases lb) simp_all
        qed
      qed
    qed
  qed
qed

lemma cell_scan_rel:
  assumes "lookup_rel R na nb" "state_rel R st su"
  shows "res_rel R (cell_scan na sh seed r c i st) (cell_scan nb sh seed r c i su)"
proof -
  from assms(2) have eq: "g_elements su = g_elements st" "g_subs su = g_subs st"
    and R: "R (g_cache st) (g_cache su)"
    by (simp_all add: state_rel_def)
  let ?mat = "\<lparr>row = r, col = c, elements = g_elements st\<rparr>"
  show ?thesis
  proof (cases "getRowIndex ?mat (int i)")
    case (Inl e)
    then show ?thesis using eq R by (simp add: cell_scan_def res_rel_def)
  next
    case (Inr ri)
    show ?thesis
    proof (cases "getColIndex ?mat (int i)")
      case (Inl e)
      then show ?thesis using eq R Inr by (simp add: cell_scan_def res_rel_def)
    next
      case ci: (Inr ci)
      from res_relD[OF reseed_rel[OF assms(1) R, of ?mat ri ci "g_subs st"]]
      obtain rr s1 u1 where rs: "reseed na ?mat ri ci (g_subs st) (g_cache st) = (rr, s1)"
        "reseed nb ?mat ri ci (g_subs st) (g_cache su) = (rr, u1)" "R s1 u1" .
      show ?thesis
      proof (cases rr)
        case (Inl e)
        then show ?thesis using eq Inr ci rs by (simp add: cell_scan_def res_rel_def)
      next
        case rrr: (Inr subs1)
        show ?thesis
          using eq Inr ci rs rrr scan_rel[OF assms(1) rs(3)]
          by (simp add: cell_scan_def Let_def)
      qed
    qed
  qed
qed

lemma cell_body_rel:
  assumes "lookup_rel R na nb" "state_rel R st su"
  shows "step_rel R (cell_body na sh fr nodes mode seed r c i st) (cell_body nb sh fr nodes mode seed r c i su)"
proof -
  from res_relD[OF cell_scan_rel[OF assms, of sh seed r c i]]
  obtain a s1 u1 where cs: "cell_scan na sh seed r c i st = (a, s1)"
    "cell_scan nb sh seed r c i su = (a, u1)" "R s1 u1" .
  from assms(2) have eq: "g_elements su = g_elements st" "g_subs su = g_subs st" "g_score su = g_score st"
    by (simp_all add: state_rel_def)
  show ?thesis
  proof (cases a)
    case (Inl e)
    then show ?thesis using cs eq by (simp add: cell_body_def state_rel_def)
  next
    case (Inr p)
    obtain element subs3 where p: "p = (element, subs3)" by (cases p)
    let ?la = "if subs3 \<noteq> [] then subs3 else nodes"
    from lookup_relD[OF assms(1) cs(3), of XN "Sample fr ?la seed"]
    obtain b s2 u2 where f: "na XN (Sample fr ?la seed) s1 = (b, s2)"
      "nb XN (Sample fr ?la seed) u1 = (b, u2)" "R s2 u2" .
    show ?thesis using cs eq Inr p f
      by (simp add: cell_body_def state_rel_def)
  qed
qed

lemma cells_loop_rel:
  assumes "lookup_rel R na nb" "state_rel R st su"
  shows "step_rel R (cells_loop na sh fr nodes mode seed r c is st) (cells_loop nb sh fr nodes mode seed r c is su)"
  using assms(2)
proof (induction "is" arbitrary: st su)
  case Nil
  then show ?case by simp
next
  case (Cons i rest)
  from cell_body_rel[OF assms(1) Cons.prems, of sh fr nodes mode seed r c i]
  show ?case using Cons.IH
    by (cases "cell_body na sh fr nodes mode seed r c i st";
        cases "cell_body nb sh fr nodes mode seed r c i su") simp_all
qed

lemma gen_return_rel:
  assumes "state_rel R st su"
  shows "res_rel R (gen_return fl mat ambient st) (gen_return fl mat ambient su)"
  using assms by (simp add: gen_return_def state_rel_def res_rel_def split: prod.splits sum.splits)

lemma generate_with_rel:
  assumes "lookup_rel R na nb" "R s u"
  shows "res_rel R (generate_with na sh fr fl r c ambient seed mode s)
                   (generate_with nb sh fr fl r c ambient seed mode u)"
proof (cases "new_Matrix r c (replicate (r * c) (Num 0))")
  case (Inl e)
  then show ?thesis using assms(2) by (simp add: generate_with_def res_rel_def)
next
  case (Inr mat)
  have "state_rel R (gen_init fl mat s) (gen_init fl mat u)"
    using assms(2) by (simp add: gen_init_def state_rel_def)
  from cells_loop_rel[OF assms(1) this, of sh fr "all_nodes fl" mode seed r c "[0..<length (elements mat)]"]
  show ?thesis using Inr gen_return_rel[of R _ _ fl mat ambient]
    by (cases "cells_loop na sh fr (all_nodes fl) mode seed r c [0..<length (elements mat)] (gen_init fl mat s)";
        cases "cells_loop nb sh fr (all_nodes fl) mode seed r c [0..<length (elements mat)] (gen_init fl mat u)")
       (simp_all add: generate_with_def res_rel_def state_rel_def)
qed

section \<open>The cache and the uncached query\<close>

lemma UseCache_fst: "fst (UseCache_nextAliases t ax e c) = cached_view t c ax e"
  by (simp add: UseCache_nextAliases_def cached_view_def expanded_def Let_def split: option.splits)

lemma UseCache_view: "cached_view t (snd (UseCache_nextAliases t ax e c)) = cached_view t c"
  by (rule ext, rule ext)
     (simp add: UseCache_nextAliases_def cached_view_def expanded_def Let_def split: option.splits)

lemma lookup_rel_pure:
  "lookup_rel (\<lambda>c u. cached_view t c = f) (UseCache_nextAliases t) (pure_lookup f)"
  by (auto simp: lookup_rel_def UseCache_fst UseCache_view pure_lookup_def)

lemma generate_with_pure:
  assumes "cached_view t s = f"
  shows "fst (generate_with (UseCache_nextAliases t) sh fr fl r c ambient seed mode s)
           = fst (generate_with (pure_lookup f) sh fr fl r c ambient seed mode ())"
    and "cached_view t (snd (generate_with (UseCache_nextAliases t) sh fr fl r c ambient seed mode s)) = f"
  using generate_with_rel[OF lookup_rel_pure[of t f], where s = s and u = "()" and sh = sh
      and fr = fr and fl = fl and r = r and c = c and ambient = ambient and seed = seed
      and mode = mode] assms
  by (simp_all add: res_rel_def)

lemma rel_get_cong: "relations r' = relations r \<Longrightarrow> rel_get r' = rel_get r"
  by (rule ext) (simp add: rel_get_def split: jsval.splits)

lemma expanded_cong:
  assumes "relations (xn t') = relations (xn t)" "relations (yn t') = relations (yn t)"
    "relations (sim t') = relations (sim t)"
  shows "expanded t' = expanded t"
proof (rule ext, rule ext)
  fix ax e
  have a: "aliases t' = aliases t"
    by (rule ext) (simp add: aliases_def rel_get_cong[OF assms(3)])
  have n: "nextElements (relation_of t' ax) = nextElements (relation_of t ax)"
    by (rule ext, cases ax)
       (simp_all add: nextElements_def relation_of_def rel_get_cong[OF assms(1)] rel_get_cong[OF assms(2)])
  show "expanded t' ax e = expanded t ax e"
    by (simp add: expanded_def nextAliases_def a n)
qed


lemma cached_view_cong: "expanded t' = expanded t \<Longrightarrow> cached_view t' = cached_view t"
  by (intro ext) (simp add: cached_view_def split: option.splits)

lemma store_cache_relations:
  "relations (xn (store_cache t uc c)) = relations (xn t)"
  "relations (yn (store_cache t uc c)) = relations (yn t)"
  "relations (sim (store_cache t uc c)) = relations (sim t)"
  "flags (store_cache t uc c) = flags t"
  by (simp_all add: store_cache_def)

lemma cache_of_store_cache:
  "cache_of (store_cache t uc c) uc = (if uc then c else (\<lambda>ax. None))"
  by (rule ext) (simp add: cache_of_def store_cache_def relation_of_def split: axis.splits)


section \<open>generate, cell by cell\<close>

lemma new_Matrix_zero: "new_Matrix r c (replicate (r * c) (Num 0)) = Inr (zero_matrix r c)"
  by (simp add: new_Matrix_def zero_matrix_def)

lemma generate_with_loop:
  "generate_with na sh fr fl r c ambient seed mode s
     = (case cells_loop na sh fr (all_nodes fl) mode seed r c [0..<r * c] (gen_init fl (zero_matrix r c) s) of
          Throw e st \<Rightarrow> (Inl e, g_cache st)
        | Break st \<Rightarrow> gen_return fl (zero_matrix r c) ambient st
        | Next st \<Rightarrow> gen_return fl (zero_matrix r c) ambient st)"
  by (simp add: generate_with_def new_Matrix_zero) (simp add: zero_matrix_def)

lemma generate_pure:
  "fst (generate sh fr t r c ambient seed options)
     = fst (generate_with (pure_lookup (call_view t options)) sh fr (flags t) r c ambient seed
              (mode_of options) ())"
  using generate_with_pure(1)[of t "cache_of t (use_cache_of options)" "call_view t options"]
  by (simp add: generate_def call_view_def Let_def case_prod_beta)

lemma generate_cells:
  "fst (generate sh fr t r c ambient seed options)
     = (case cells_upto sh fr t seed options r c (r * c) of
          Throw e st \<Rightarrow> Inl e
        | Break st \<Rightarrow> fst (gen_return (flags t) (zero_matrix r c) ambient st)
        | Next st \<Rightarrow> fst (gen_return (flags t) (zero_matrix r c) ambient st))"
  by (simp add: generate_pure generate_with_loop cells_upto_def split: step.splits)

lemma gen_init_length: "length (g_elements (gen_init fl (zero_matrix r c) s)) = r * c"
  by (simp add: gen_init_def zero_matrix_def)

lemma gen_init_score: "g_score (gen_init fl (zero_matrix r c) s) = r * c"
  by (simp add: gen_init_def zero_matrix_def size_of_def)

lemma gen_init_cell: "j < r * c \<Longrightarrow> g_elements (gen_init fl (zero_matrix r c) s) ! j = Num 0"
  by (simp add: gen_init_def zero_matrix_def)

lemma cells_upto_split:
  assumes "i < n"
  shows "cells_upto sh fr t seed options r c n
           = (case cells_upto sh fr t seed options r c i of
                Next st \<Rightarrow>
                  (case cell_body (pure_lookup (call_view t options)) sh fr (all_nodes (flags t))
                          (mode_of options) seed r c i st of
                     Next st' \<Rightarrow> cells_loop (pure_lookup (call_view t options)) sh fr
                                  (all_nodes (flags t)) (mode_of options) seed r c [Suc i..<n] st'
                   | Break st' \<Rightarrow> Break st'
                   | Throw e st' \<Rightarrow> Throw e st')
              | Break st \<Rightarrow> Break st
              | Throw e st \<Rightarrow> Throw e st)"
proof -
  from assms have "[0..<n] = [0..<i] @ i # [Suc i..<n]"
    by (metis upt_conv_Cons upt_add_eq_append le_add_diff_inverse less_imp_le_nat zero_le)
  then show ?thesis
    by (simp add: cells_upto_def cells_loop_append split: step.splits)
qed

lemma js_div_same: "js_div n n = (if n = 0 then QNaN else Quot 1)"
  by (simp add: js_div_def One_rat_def eq_rat)

lemma restore_cell_zero: "\<not> hasKey fl (Num 0) \<Longrightarrow> restore_cell fl ambient (Num 0) = ambient"
  by (simp add: restore_cell_def)

lemmas eval_defs = generate_def generate_with_def default_options_def new_Matrix_def
    cell_body_def cell_scan_def gen_init_def all_nodes_def getRowIndex_def getColIndex_def OutOfRange_def
    reseed_def keep_order_def UseCache_nextAliases_def cache_of_def relation_of_def gen_return_result
    size_of_def js_div_def restore_cell_def hasKey_def getKey_def nextAliases_def aliases_def nextElements_def
    rel_get_def connect_check_def lookahead_check_def hasTop_def hasLeft_def Let_def
    cells_upto_def scan_at_def call_view_def cached_view_def expanded_def pure_lookup_def
    use_cache_of_def mode_of_def zero_matrix_def getElement_def getIndex_def js_nth_def

text \<open>
  In quality mode the loop goes on to the next cell only after it wrote an element that
  is not false: the cells before the one it has reached are all resolved.
\<close>

lemma cell_body_quality_next:
  assumes "cell_body na sh fr nodes ''quality'' seed r c i st = Next st'"
  shows "\<exists>el. \<not> falsy el \<and> g_elements st' = (g_elements st)[i := el]"
  using assms by (auto simp: cell_body_def split: sum.splits prod.splits if_splits)

lemma cells_loop_quality_truthy:
  assumes "cells_loop na sh fr nodes ''quality'' seed r c [0..<n] st = Next st'"
    and "n \<le> length (g_elements st)"
  shows "\<forall>j < n. \<not> falsy (g_elements st' ! j)"
  using assms
proof (induction n arbitrary: st')
  case 0
  then show ?case by simp
next
  case (Suc n)
  have sp: "cells_loop na sh fr nodes ''quality'' seed r c [0..<Suc n] st
             = (case cells_loop na sh fr nodes ''quality'' seed r c [0..<n] st of
                  Next st1 \<Rightarrow> cells_loop na sh fr nodes ''quality'' seed r c [n] st1
                | Break st1 \<Rightarrow> Break st1
                | Throw e st1 \<Rightarrow> Throw e st1)"
    using cells_loop_append[of na sh fr nodes "''quality''" seed r c "[0..<n]" "[n]" st] by simp
  from Suc.prems(1) sp obtain st1
    where pre: "cells_loop na sh fr nodes ''quality'' seed r c [0..<n] st = Next st1"
      and last: "cells_loop na sh fr nodes ''quality'' seed r c [n] st1 = Next st'"
    by (cases "cells_loop na sh fr nodes ''quality'' seed r c [0..<n] st") simp_all
  from last have b: "cell_body na sh fr nodes ''quality'' seed r c n st1 = Next st'"
    by (cases "cell_body na sh fr nodes ''quality'' seed r c n st1") simp_all
  from cell_body_quality_next[OF b] obtain el
    where el: "\<not> falsy el" "g_elements st' = (g_elements st1)[n := el]" by auto
  have len: "length (g_elements st1) = length (g_elements st)"
    using cells_loop_frame[of na sh fr nodes "''quality''" seed r c "[0..<n]" st] pre by simp
  from Suc.IH[OF pre] Suc.prems(2) have ih: "\<forall>j < n. \<not> falsy (g_elements st1 ! j)" by simp
  show ?case
  proof (intro allI impI)
    fix j assume "j < Suc n"
    then consider "j < n" | "j = n" by linarith
    then show "\<not> falsy (g_elements st' ! j)"
    proof cases
      case 1
      then show ?thesis using ih el(2) by simp
    next
      case 2
      then show ?thesis using el len Suc.prems(2) by simp
    qed
  qed
qed

lemma cells_upto_quality_truthy:
  assumes "mode_of options = ''quality''" "cells_upto sh fr t seed options r c n = Next st" "n \<le> r * c"
  shows "\<forall>j < n. \<not> falsy (g_elements st ! j)"
  using cells_loop_quality_truthy[of "pure_lookup (call_view t options)" sh fr "all_nodes (flags t)"
      seed r c n "gen_init (flags t) (zero_matrix r c) ()" st] assms
  by (simp add: cells_upto_def gen_init_length)

lemma flags_dense_no_zero: "flags_dense fl \<Longrightarrow> \<not> hasKey fl (Num 0)"
proof
  assume d: "flags_dense fl" and h: "hasKey fl (Num 0)"
  from h have "0 \<in> set (map snd fl)"
    by (force simp: hasKey_def list_ex_iff)
  with d have "(0::int) \<in> set (map int [1..<Suc (length fl)])"
    by (simp add: flags_dense_def)
  then show False by auto
qed

text \<open>
  C3, as amended. In quality mode, when the cells before offset \<open>i\<close> were all given an
  element and the loop over the candidates of cell \<open>i\<close> leaves none, the call returns
  there: the score is \<open>i\<close> over \<open>rows * cols\<close>, every cell from \<open>i\<close> on still holds the
  flag \<open>0\<close>, and the grid returned has in those cells what \<open>restore\<close> makes of the flag
  \<open>0\<close>: the ambient element when no element is registered with the flag \<open>0\<close>, as is
  the case whenever the flags of the registry are dense, and the element registered
  with the flag \<open>0\<close> otherwise.
\<close>

theorem quality_stops_at_first_unresolved:
  assumes "mode_of options = ''quality''"
    and "i < r * c"
    and "cells_upto sh fr t seed options r c i = Next sti"
    and "scan_at sh t seed options r c i sti = Inr (element, sb)"
    and "falsy element"
  shows "fst (generate sh fr t r c ambient seed options)
           = Inr \<lparr>res_score = Quot (Fract (int i) (int (r * c))),
                  res_matrix = \<lparr>row = r, col = c,
                                elements = map (restore_cell (flags t) ambient) (g_elements sti)\<rparr>\<rparr>
         \<and> (\<forall>j. i \<le> j \<and> j < r * c \<longrightarrow>
               g_elements sti ! j = Num 0
               \<and> map (restore_cell (flags t) ambient) (g_elements sti) ! j
                   = restore_cell (flags t) ambient (Num 0))
         \<and> (\<not> hasKey (flags t) (Num 0) \<longrightarrow> restore_cell (flags t) ambient (Num 0) = ambient)
         \<and> (hasKey (flags t) (Num 0) \<longrightarrow>
               restore_cell (flags t) ambient (Num 0) = getKey (flags t) (Num 0))
         \<and> (flags_dense (flags t) \<longrightarrow> \<not> hasKey (flags t) (Num 0))"
proof -
  let ?na = "pure_lookup (call_view t options)"
  have fr: "length (g_elements sti) = r * c"
    "\<And>j. j \<notin> set [0..<i] \<Longrightarrow> g_elements sti ! j = g_elements (gen_init (flags t) (zero_matrix r c) ()) ! j"
    using cells_loop_frame[of ?na sh fr "all_nodes (flags t)" "mode_of options" seed r c "[0..<i]"
        "gen_init (flags t) (zero_matrix r c) ()"] assms(3)
    by (simp_all add: cells_upto_def gen_init_length)
  obtain s' where cs: "cell_scan ?na sh seed r c i sti = (Inr (element, sb), s')"
    using assms(4) by (cases "cell_scan ?na sh seed r c i sti") (simp add: scan_at_def)
  have body: "cell_body ?na sh fr (all_nodes (flags t)) (mode_of options) seed r c i sti
                = Break (sti\<lparr>g_score := i, g_subs := sb, g_cache := s'\<rparr>)"
    using cell_body_quality_none[OF cs assms(5)] assms(1) by simp
  have run: "cells_upto sh fr t seed options r c (r * c) = Break (sti\<lparr>g_score := i, g_subs := sb, g_cache := s'\<rparr>)"
    by (simp add: cells_upto_split[OF assms(2)] assms(3) body)
  have zero: "g_elements sti ! j = Num 0" if "i \<le> j" "j < r * c" for j
    using fr(2)[of j] that by (simp add: gen_init_cell)
  have res: "fst (generate sh fr t r c ambient seed options)
           = Inr \<lparr>res_score = Quot (Fract (int i) (int (r * c))),
                  res_matrix = \<lparr>row = r, col = c,
                                elements = map (restore_cell (flags t) ambient) (g_elements sti)\<rparr>\<rparr>"
  proof -
    from assms(2) have nz: "r * c \<noteq> 0" by (cases "r * c") simp_all
    then have "js_div i (r * c) = Quot (Fract (int i) (int (r * c)))"
      by (simp only: js_div_def if_False)
    then show ?thesis
      using fr(1) by (simp add: generate_cells run gen_return_result zero_matrix_def size_of_def)
  qed
  have cells: "\<forall>j. i \<le> j \<and> j < r * c \<longrightarrow>
               g_elements sti ! j = Num 0
               \<and> map (restore_cell (flags t) ambient) (g_elements sti) ! j
                   = restore_cell (flags t) ambient (Num 0)"
    using zero fr(1) by simp
  have amb: "\<not> hasKey (flags t) (Num 0) \<longrightarrow> restore_cell (flags t) ambient (Num 0) = ambient"
    and key: "hasKey (flags t) (Num 0) \<longrightarrow>
               restore_cell (flags t) ambient (Num 0) = getKey (flags t) (Num 0)"
    by (simp_all add: restore_cell_def)
  have dense: "flags_dense (flags t) \<longrightarrow> \<not> hasKey (flags t) (Num 0)"
    by (simp add: flags_dense_no_zero)
  from res cells amb key dense show ?thesis by (intro conjI)
qed

theorem quality_stops_at_first_unresolved_witness:
  "fst (generate keep_order no_random chain_trainer 1 2 (Str ''_'') (Num 7) default_options)
     = Inr \<lparr>res_score = Quot (Fract 1 2),
            res_matrix = \<lparr>row = 1, col = 2, elements = [Str ''A'', Str ''_'']\<rparr>\<rparr>
   \<and> restore_cell (flags chain_trainer) (Str ''_'') (Num 0) = Str ''_''"
proof -
  let ?sti = "\<lparr>g_elements = [Num 1, Num 0], g_score = 2, g_subs = [Num 2], g_cache = ()\<rparr>"
  have h1: "mode_of default_options = ''quality''"
    by (simp add: mode_of_def default_options_def)
  have h2: "(1::nat) < 1 * 2" by simp
  have h3: "cells_upto keep_order no_random chain_trainer (Num 7) default_options 1 2 1 = Next ?sti"
    by (simp add: eval_defs chain_trainer_def numeral_2_eq_2)
  have h4: "scan_at keep_order chain_trainer (Num 7) default_options 1 2 1 ?sti = Inr (Undefined, [Num 2])"
    by (simp add: eval_defs chain_trainer_def)
  have h5: "falsy Undefined" by simp
  have h6: "\<not> hasKey (flags chain_trainer) (Num 0)"
    by (simp add: hasKey_def chain_trainer_def)
  note th = quality_stops_at_first_unresolved[OF h1 h2 h3 h4 h5, where ambient = "Str ''_''"]
  from th have g: "fst (generate keep_order no_random chain_trainer 1 2 (Str ''_'') (Num 7) default_options)
     = Inr \<lparr>res_score = Quot (Fract (int 1) (int (1 * 2))),
            res_matrix = \<lparr>row = 1, col = 2,
               elements = map (restore_cell (flags chain_trainer) (Str ''_'')) (g_elements ?sti)\<rparr>\<rparr>"
    by (rule conjunct1)
  from th h6 have z: "restore_cell (flags chain_trainer) (Str ''_'') (Num 0) = Str ''_''"
    by blast
  have a: "restore_cell (flags chain_trainer) (Str ''_'') (Num 1) = Str ''A''"
    by (simp add: restore_cell_def hasKey_def getKey_def chain_trainer_def)
  show ?thesis
    unfolding g using z a by simp
qed

text \<open>
  C3, as stated, fails on a trainer in which an element is registered with the flag
  \<open>0\<close>, as \<open>load\<close> makes it from a dataset whose table says so: the call stops at the
  first cell with the score \<open>0\<close>, and the grid returned has that element, not the
  ambient element, in the cell.
\<close>

theorem quality_unresolved_not_ambient:
  "fst (generate keep_order no_random (load ([(Str ''A'', 0)], [], [], []) new_MatrixTrainer)
          1 1 (Str ''_'') (Num 7) default_options)
     = Inr \<lparr>res_score = Quot 0, res_matrix = \<lparr>row = 1, col = 1, elements = [Str ''A'']\<rparr>\<rparr>"
  by (simp add: eval_defs load_def new_MatrixTrainer_def new_Relationship_def new_Map_def
      map_set_def rat_number_collapse)

text \<open>
  C4, as amended. In fill mode \<open>generate\<close> never fails and never stops early; the score
  is \<open>1\<close> for a grid that has a cell, and \<open>NaN\<close>, the quotient \<open>0 / 0\<close>, for a grid
  without cells. Where the loop over the candidates of a cell leaves no element, the
  cell is set to \<open>Sample\<close> of the pool, or of all the flags when the pool is empty, a
  function of that array and the seed, and the pool becomes the expanded neighbours of
  that element.
\<close>

theorem fill_never_aborts:
  assumes "mode_of options = ''fill''"
  shows "(\<exists>res. fst (generate sh fr t r c ambient seed options) = Inr res
              \<and> res_score res = (if r * c = 0 then QNaN else Quot 1))
       \<and> (\<forall>i st element sb. scan_at sh t seed options r c i st = Inr (element, sb) \<and> falsy element \<longrightarrow>
             cell_body (pure_lookup (call_view t options)) sh fr (all_nodes (flags t)) (mode_of options)
                 seed r c i st
               = Next (st\<lparr>g_elements := (g_elements st)
                              [i := Sample fr (if sb \<noteq> [] then sb else all_nodes (flags t)) seed],
                           g_subs := call_view t options XN
                              (Sample fr (if sb \<noteq> [] then sb else all_nodes (flags t)) seed)\<rparr>))"
proof
  let ?na = "pure_lookup (call_view t options)"
  let ?init = "gen_init (flags t) (zero_matrix r c) ()"
  have "\<forall>i \<in> set [0..<r * c]. i < r * c" by simp
  from cells_loop_fill_next[OF this gen_init_length, of ?na sh fr "all_nodes (flags t)" seed "flags t" "()"]
  obtain st' where run: "cells_loop ?na sh fr (all_nodes (flags t)) ''fill'' seed r c [0..<r * c] ?init = Next st'"
    by auto
  have len: "length (g_elements st') = r * c"
    using cells_loop_frame[of ?na sh fr "all_nodes (flags t)" "''fill''" seed r c "[0..<r * c]" ?init] run
    by (simp add: gen_init_length)
  have sc: "g_score st' = r * c"
    using cells_loop_next_score[OF run] by (simp add: gen_init_score)
  show "\<exists>res. fst (generate sh fr t r c ambient seed options) = Inr res
              \<and> res_score res = (if r * c = 0 then QNaN else Quot 1)"
    using run len sc assms js_div_same[of "r * c"]
    by (simp add: generate_cells cells_upto_def gen_return_result zero_matrix_def size_of_def)
next
  show "\<forall>i st element sb. scan_at sh t seed options r c i st = Inr (element, sb) \<and> falsy element \<longrightarrow>
             cell_body (pure_lookup (call_view t options)) sh fr (all_nodes (flags t)) (mode_of options)
                 seed r c i st
               = Next (st\<lparr>g_elements := (g_elements st)
                              [i := Sample fr (if sb \<noteq> [] then sb else all_nodes (flags t)) seed],
                           g_subs := call_view t options XN
                              (Sample fr (if sb \<noteq> [] then sb else all_nodes (flags t)) seed)\<rparr>)"
  proof (intro allI impI, elim conjE)
    fix i st element sb
    assume a: "scan_at sh t seed options r c i st = Inr (element, sb)" and f: "falsy element"
    obtain s' where cs: "cell_scan (pure_lookup (call_view t options)) sh seed r c i st = (Inr (element, sb), s')"
      using a by (cases "cell_scan (pure_lookup (call_view t options)) sh seed r c i st") (simp add: scan_at_def)
    show "cell_body (pure_lookup (call_view t options)) sh fr (all_nodes (flags t)) (mode_of options)
                 seed r c i st
               = Next (st\<lparr>g_elements := (g_elements st)
                              [i := Sample fr (if sb \<noteq> [] then sb else all_nodes (flags t)) seed],
                           g_subs := call_view t options XN
                              (Sample fr (if sb \<noteq> [] then sb else all_nodes (flags t)) seed)\<rparr>)"
      using cell_body_fill_none[OF cs f, of fr "all_nodes (flags t)"] assms
      by (simp add: pure_lookup_def)
  qed
qed

theorem fill_never_aborts_witness:
  "(\<exists>res. fst (generate keep_order no_random lone_trainer 1 2 (Str ''_'') (Num 7)
                  \<lparr>opt_useCache = None, opt_mode = Some ''fill''\<rparr>) = Inr res
          \<and> res_score res = Quot 1)
   \<and> cell_body (pure_lookup (call_view lone_trainer \<lparr>opt_useCache = None, opt_mode = Some ''fill''\<rparr>))
        keep_order no_random (all_nodes (flags lone_trainer)) ''fill'' (Num 7) 1 2 0
        \<lparr>g_elements = [Num 0, Num 0], g_score = 2, g_subs = [Num 1], g_cache = ()\<rparr>
      = Next \<lparr>g_elements = [Num 1, Num 0], g_score = 2, g_subs = [], g_cache = ()\<rparr>"
proof -
  let ?o = "\<lparr>opt_useCache = None, opt_mode = Some ''fill''\<rparr>"
  let ?st = "\<lparr>g_elements = [Num 0, Num 0], g_score = 2, g_subs = [Num 1], g_cache = ()\<rparr>"
  have m: "mode_of ?o = ''fill''" by (simp add: mode_of_def)
  note th = fill_never_aborts[OF m, of keep_order no_random lone_trainer 1 2 "Str ''_''" "Num 7"]
  have sc: "scan_at keep_order lone_trainer (Num 7) ?o 1 2 0 ?st = Inr (Undefined, [Num 1])"
    by (simp add: eval_defs lone_trainer_def)
  from th have "cell_body (pure_lookup (call_view lone_trainer ?o)) keep_order no_random
        (all_nodes (flags lone_trainer)) (mode_of ?o) (Num 7) 1 2 0 ?st
      = Next (?st\<lparr>g_elements := (g_elements ?st)
                     [0 := Sample no_random (if [Num 1] \<noteq> [] then [Num 1] else all_nodes (flags lone_trainer)) (Num 7)],
                  g_subs := call_view lone_trainer ?o XN
                     (Sample no_random (if [Num 1] \<noteq> [] then [Num 1] else all_nodes (flags lone_trainer)) (Num 7))\<rparr>)"
    using sc by (elim conjE allE[of _ 0] allE[of _ ?st] allE[of _ Undefined] allE[of _ "[Num 1]"]) simp
  moreover have "Sample no_random [Num 1] (Num 7) = Num 1"
    by (simp add: Sample_def no_random_def js_nth_def)
  moreover have "call_view lone_trainer ?o XN (Num 1) = []"
    by (simp add: eval_defs lone_trainer_def)
  ultimately show ?thesis using th by (simp add: m)
qed

text \<open>
  C4, as stated, fails on a grid without cells: the score of \<open>generate(0, 0, ...)\<close> in
  fill mode is \<open>NaN\<close>.
\<close>

theorem fill_empty_grid_score:
  "fst (generate keep_order no_random lone_trainer 0 0 (Str ''_'') (Num 7)
          \<lparr>opt_useCache = None, opt_mode = Some ''fill''\<rparr>)
     = Inr \<lparr>res_score = QNaN, res_matrix = \<lparr>row = 0, col = 0, elements = []\<rparr>\<rparr>"
  by (simp add: eval_defs lone_trainer_def)

section \<open>A mode that is neither quality nor fill\<close>

lemma cell_body_break_score:
  "cell_body na sh fr nodes ''quality'' seed r c i st = Break st' \<Longrightarrow> g_score st' = i"
  by (auto simp: cell_body_def split: sum.splits prod.splits if_splits)

lemma cells_loop_break_score:
  "cells_loop na sh fr nodes ''quality'' seed r c is st = Break st' \<Longrightarrow> g_score st' \<in> set is"
proof (induction "is" arbitrary: st)
  case Nil
  then show ?case by simp
next
  case (Cons i rest)
  then show ?case
    by (cases "cell_body na sh fr nodes ''quality'' seed r c i st")
       (auto dest: cell_body_break_score)
qed

lemma js_div_less: "i < n \<Longrightarrow> js_div i n \<noteq> Quot 1 \<and> js_div i n \<noteq> QNaN"
  by (auto simp: js_div_def One_rat_def eq_rat)

lemma generate_keeps_graphs:
  "flags (snd (generate sh fr t r c ambient seed options)) = flags t"
  "relations (xn (snd (generate sh fr t r c ambient seed options))) = relations (xn t)"
  "relations (yn (snd (generate sh fr t r c ambient seed options))) = relations (yn t)"
  "relations (sim (snd (generate sh fr t r c ambient seed options))) = relations (sim t)"
  by (simp_all add: generate_def Let_def case_prod_beta store_cache_relations)

lemma call_view_mode: "call_view t (options\<lparr>opt_mode := x\<rparr>) = call_view t options"
  by (simp add: call_view_def use_cache_of_def)

text \<open>
  C5, as amended. A call whose mode is neither \<open>quality\<close> nor \<open>fill\<close> does what the
  call in quality mode does, except where that call stops early (its score is below
  \<open>1\<close>): there, and only there, it fails with \<open>UnknownMode\<close>, at the first cell that
  is left without an element. It fails with no other error. The call leaves the flags
  and the three graphs of the trainer as they were; the default cache may have been
  filled before the failure.
\<close>

theorem unknown_mode_rule:
  assumes "mode_of options = m" "m \<noteq> ''quality''" "m \<noteq> ''fill''"
  shows "fst (generate sh fr t r c ambient seed options)
           = (case fst (generate sh fr t r c ambient seed (options\<lparr>opt_mode := Some ''quality''\<rparr>)) of
                Inl e \<Rightarrow> Inl e
              | Inr res \<Rightarrow>
                  (if res_score res = Quot 1 \<or> res_score res = QNaN then Inr res
                   else Inl (UnknownMode m)))
         \<and> (\<forall>e. fst (generate sh fr t r c ambient seed options) = Inl e \<longrightarrow> e = UnknownMode m)
         \<and> flags (snd (generate sh fr t r c ambient seed options)) = flags t
         \<and> relations (xn (snd (generate sh fr t r c ambient seed options))) = relations (xn t)
         \<and> relations (yn (snd (generate sh fr t r c ambient seed options))) = relations (yn t)
         \<and> relations (sim (snd (generate sh fr t r c ambient seed options))) = relations (sim t)"
proof -
  let ?q = "options\<lparr>opt_mode := Some ''quality''\<rparr>"
  let ?na = "pure_lookup (call_view t options)"
  let ?init = "gen_init (flags t) (zero_matrix r c) ()"
  let ?qrun = "cells_loop ?na sh fr (all_nodes (flags t)) ''quality'' seed r c [0..<r * c] ?init"
  have mq: "mode_of ?q = ''quality''" by (simp add: mode_of_def)
  have gq: "fst (generate sh fr t r c ambient seed ?q)
              = (case ?qrun of
                   Throw e st \<Rightarrow> Inl e
                 | Break st \<Rightarrow> fst (gen_return (flags t) (zero_matrix r c) ambient st)
                 | Next st \<Rightarrow> fst (gen_return (flags t) (zero_matrix r c) ambient st))"
    by (simp add: generate_cells cells_upto_def mq call_view_mode)
  have gm: "fst (generate sh fr t r c ambient seed options)
              = (case ?qrun of
                   Throw e st \<Rightarrow> Inl e
                 | Break st \<Rightarrow> Inl (UnknownMode m)
                 | Next st \<Rightarrow> fst (gen_return (flags t) (zero_matrix r c) ambient st))"
    using cells_loop_other_mode[OF assms(2,3), of ?na sh fr "all_nodes (flags t)" seed r c "[0..<r * c]" ?init]
    by (simp add: generate_cells cells_upto_def assms(1) split: step.splits)
  have len: "length (g_elements (state_of ?qrun)) = r * c"
    using cells_loop_frame[of ?na sh fr "all_nodes (flags t)" "''quality''" seed r c "[0..<r * c]" ?init]
    by (simp add: gen_init_length)
  have main: "fst (generate sh fr t r c ambient seed options)
           = (case fst (generate sh fr t r c ambient seed ?q) of
                Inl e \<Rightarrow> Inl e
              | Inr res \<Rightarrow>
                  (if res_score res = Quot 1 \<or> res_score res = QNaN then Inr res
                   else Inl (UnknownMode m)))
         \<and> (\<forall>e. fst (generate sh fr t r c ambient seed options) = Inl e \<longrightarrow> e = UnknownMode m)"
  proof (cases ?qrun)
    case (Next st)
    have "g_score st = r * c"
      using cells_loop_next_score[OF Next] by (simp add: gen_init_score)
    then show ?thesis
      using Next len js_div_same[of "r * c"]
      by (simp add: gm gq gen_return_result zero_matrix_def size_of_def)
  next
    case (Break st)
    from cells_loop_break_score[OF Break] have "g_score st < r * c" by simp
    from js_div_less[OF this] show ?thesis
      using Break len
      by (simp add: gm gq gen_return_result zero_matrix_def size_of_def)
  next
    case (Throw e st)
    have "\<forall>i \<in> set [0..<r * c]. i < r * c" by simp
    from cells_loop_quality_no_throw[OF this gen_init_length, of ?na sh fr "all_nodes (flags t)" seed "flags t" "()" e st]
    show ?thesis using Throw by simp
  qed
  show ?thesis
    using main by (simp add: generate_keeps_graphs)
qed

theorem unknown_mode_rule_witness:
  "fst (generate keep_order no_random lone_trainer 1 1 (Str ''_'') (Num 7)
          \<lparr>opt_useCache = None, opt_mode = Some ''foo''\<rparr>) = Inl (UnknownMode ''foo'')
   \<and> fst (generate keep_order no_random lone_trainer 1 1 (Str ''_'') (Num 7)
          \<lparr>opt_useCache = None, opt_mode = Some ''quality''\<rparr>)
       = Inr \<lparr>res_score = Quot 0, res_matrix = \<lparr>row = 1, col = 1, elements = [Str ''_'']\<rparr>\<rparr>"
proof -
  let ?o = "\<lparr>opt_useCache = None, opt_mode = Some ''foo''\<rparr>"
  have m: "mode_of ?o = ''foo''" by (simp add: mode_of_def)
  have q: "fst (generate keep_order no_random lone_trainer 1 1 (Str ''_'') (Num 7)
          \<lparr>opt_useCache = None, opt_mode = Some ''quality''\<rparr>)
       = Inr \<lparr>res_score = Quot 0, res_matrix = \<lparr>row = 1, col = 1, elements = [Str ''_'']\<rparr>\<rparr>"
    by (simp add: eval_defs lone_trainer_def rat_number_collapse)
  have eq: "?o\<lparr>opt_mode := Some ''quality''\<rparr> = \<lparr>opt_useCache = None, opt_mode = Some ''quality''\<rparr>"
    by simp
  have ne: "Quot 0 \<noteq> Quot 1" "Quot 0 \<noteq> QNaN" by simp_all
  from unknown_mode_rule[OF m, of keep_order no_random lone_trainer 1 1 "Str ''_''" "Num 7"]
  have "fst (generate keep_order no_random lone_trainer 1 1 (Str ''_'') (Num 7) ?o)
          = (case fst (generate keep_order no_random lone_trainer 1 1 (Str ''_'') (Num 7)
                        \<lparr>opt_useCache = None, opt_mode = Some ''quality''\<rparr>) of
               Inl e \<Rightarrow> Inl e
             | Inr res \<Rightarrow>
                 (if res_score res = Quot 1 \<or> res_score res = QNaN then Inr res
                  else Inl (UnknownMode ''foo'')))"
    unfolding eq by simp
  also have "\<dots> = Inl (UnknownMode ''foo'')"
    unfolding q using ne by simp
  finally show ?thesis using q by (intro conjI)
qed

text \<open>
  C5, as stated, fails: on a trainer whose only flag follows itself, a call with the
  mode \<open>foo\<close> returns a grid and a score of \<open>1\<close>; and on a trainer whose only flag
  has no edge, the call fails with \<open>UnknownMode\<close> after the default cache, empty
  before the call, was given an entry for the flag.
\<close>

theorem unknown_mode_accepted:
  "fst (generate keep_order no_random loop_trainer 1 1 (Str ''_'') (Num 7)
          \<lparr>opt_useCache = None, opt_mode = Some ''foo''\<rparr>)
     = Inr \<lparr>res_score = Quot 1, res_matrix = \<lparr>row = 1, col = 1, elements = [Str ''A'']\<rparr>\<rparr>
   \<and> fst (generate keep_order no_random lone_trainer 1 1 (Str ''_'') (Num 7)
          \<lparr>opt_useCache = None, opt_mode = Some ''foo''\<rparr>) = Inl (UnknownMode ''foo'')
   \<and> map_option (\<lambda>tab. tab (Num 1))
        (subAliasEntry (xn (snd (generate keep_order no_random lone_trainer 1 1 (Str ''_'') (Num 7)
          \<lparr>opt_useCache = None, opt_mode = Some ''foo''\<rparr>)))) = Some (Some [])
   \<and> subAliasEntry (xn lone_trainer) = None"
  by (simp add: eval_defs lone_trainer_def loop_trainer_def One_rat_def store_cache_def)

section \<open>dataset and load\<close>

lemma stale_trainer_reached:
  "snd (train addEdge \<lparr>row = 2, col = 2, elements = [Str ''A'', Str ''A'', Str ''A'', Str ''A'']\<rparr>
         (snd (generate keep_order no_random
                 (snd (train addEdge \<lparr>row = 1, col = 1, elements = [Str ''A'']\<rparr> new_MatrixTrainer))
                 1 1 (Str ''_'') (Num 7) default_options)))
     = stale_trainer"
proof -
  have t1: "snd (train addEdge \<lparr>row = 1, col = 1, elements = [Str ''A'']\<rparr> new_MatrixTrainer)
              = lone_trainer"
    by (simp add: train_def train_cell_def getRowIndex_def getColIndex_def OutOfRange_def
        new_MatrixTrainer_def new_Relationship_def new_Map_def ensureFlag_def map_set_def js_nth_def
        lone_trainer_def)
  have t2: "snd (generate keep_order no_random lone_trainer 1 1 (Str ''_'') (Num 7) default_options)
              = lone_trainer\<lparr>xn := (xn lone_trainer)\<lparr>subAliasEntry := Some [Num 1 \<mapsto> []]\<rparr>,
                              yn := (yn lone_trainer)\<lparr>subAliasEntry := Some [Num 1 \<mapsto> []]\<rparr>\<rparr>"
    by (simp add: eval_defs lone_trainer_def store_cache_def)
  show ?thesis
    unfolding t1 t2
    by (simp add: train_def train_cell_def getRowIndex_def getColIndex_def OutOfRange_def
        ensureFlag_def map_set_def js_nth_def lone_trainer_def stale_trainer_def addEdge_def
        getElement_def getIndex_def upt_rec)
qed

lemma load_dataset_fields:
  assumes "one_entry_per_key t"
  shows "flags (load (dataset t) t0) = flags t"
    "relations (xn (load (dataset t) t0)) = relations (xn t)"
    "relations (yn (load (dataset t) t0)) = relations (yn t)"
    "relations (sim (load (dataset t) t0)) = relations (sim t)"
    "cache_of (load (dataset t) t0) b = (\<lambda>ax. None)"
  using assms
  by (auto simp: one_entry_per_key_def load_def dataset_def new_Relationship_def rel_dataset_def
      new_Map_distinct cache_of_def relation_of_def split: axis.splits)

lemma nextAliases_cong:
  assumes "relations (sim t') = relations (sim t)" "relations r' = relations r"
  shows "nextAliases t' r' = nextAliases t r"
proof (rule ext)
  fix e
  have a: "aliases t' = aliases t"
    by (rule ext) (simp add: aliases_def rel_get_cong[OF assms(1)])
  have n: "nextElements r' = nextElements r"
    by (rule ext) (simp add: nextElements_def rel_get_cong[OF assms(2)])
  show "nextAliases t' r' e = nextAliases t r e"
    by (simp add: nextAliases_def a n)
qed

lemma one_entry_per_key_new: "one_entry_per_key new_MatrixTrainer"
  by (simp add: one_entry_per_key_def new_MatrixTrainer_def new_Relationship_def new_Map_def)

lemma one_entry_per_key_load: "one_entry_per_key (load ds t)"
  by (cases ds)
     (simp add: one_entry_per_key_def load_def new_Relationship_def distinct_new_Map)

lemma one_entry_per_key_generate:
  "one_entry_per_key (snd (generate sh fr t r c ambient seed options)) = one_entry_per_key t"
  by (simp add: one_entry_per_key_def generate_keeps_graphs)

lemma cache_agrees_new: "cache_agrees new_MatrixTrainer"
  by (simp add: cache_agrees_def cache_of_def cached_view_def relation_of_def new_MatrixTrainer_def
      new_Relationship_def fun_eq_iff split: axis.splits)

lemma cache_agrees_load: "cache_agrees (load ds t)"
  by (cases ds)
     (simp add: cache_agrees_def cache_of_def cached_view_def relation_of_def load_def
        new_Relationship_def fun_eq_iff split: axis.splits)

lemma cache_agrees_generate:
  assumes "cache_agrees t"
  shows "cache_agrees (snd (generate sh fr t r c ambient seed options))"
proof (cases "use_cache_of options")
  case True
  let ?run = "generate_with (UseCache_nextAliases t) sh fr (flags t) r c ambient seed
                (mode_of options) (cache_of t True)"
  let ?t' = "store_cache t True (snd ?run)"
  have g: "snd (generate sh fr t r c ambient seed options) = ?t'"
    using True by (simp add: generate_def Let_def case_prod_beta)
  have ex: "expanded ?t' = expanded t"
    by (rule expanded_cong) (simp_all add: store_cache_relations)
  have cv: "cached_view t (snd ?run) = expanded t"
    using generate_with_pure(2)[of t "cache_of t True" "cached_view t (cache_of t True)"] assms
    by (simp add: cache_agrees_def)
  have a: "cache_of ?t' True = snd ?run"
    using cache_of_store_cache[of t True "snd ?run"] by simp
  have "cached_view ?t' (cache_of ?t' True) = expanded ?t'"
    unfolding a cached_view_cong[OF ex] ex by (rule cv)
  then show ?thesis by (simp only: g cache_agrees_def)
next
  case False
  then show ?thesis
    using assms by (simp add: generate_def Let_def case_prod_beta store_cache_def)
qed

text \<open>
  C7, as amended. For a trainer whose default cache agrees with its graphs (as it does
  after the constructor, after \<open>load\<close>, and after every \<open>generate\<close> that follows them
  with no \<open>train\<close> or \<open>ally\<close> in between), or for a call that does not use the default
  cache: loading its dataset into any trainer gives a trainer on which the expanded
  neighbours of every element on every graph, and the result of \<open>generate\<close> for every
  argument, are those of the trainer the dataset came from.
\<close>

theorem load_dataset_same_queries:
  assumes "one_entry_per_key t"
    and "cache_agrees t \<or> \<not> use_cache_of options"
  shows "nextAliases (load (dataset t) t0) (xn (load (dataset t) t0)) = nextAliases t (xn t)
       \<and> nextAliases (load (dataset t) t0) (yn (load (dataset t) t0)) = nextAliases t (yn t)
       \<and> nextAliases (load (dataset t) t0) (sim (load (dataset t) t0)) = nextAliases t (sim t)
       \<and> fst (generate sh fr (load (dataset t) t0) r c ambient seed options)
           = fst (generate sh fr t r c ambient seed options)"
proof -
  let ?t' = "load (dataset t) t0"
  note f = load_dataset_fields[OF assms(1), of t0]
  have ex: "expanded ?t' = expanded t"
    by (rule expanded_cong) (simp_all add: f)
  have v': "call_view ?t' options = expanded t"
    by (intro ext) (simp add: call_view_def f(5) cached_view_def ex)
  have v: "call_view t options = expanded t"
  proof (cases "use_cache_of options")
    case True
    with assms(2) show ?thesis by (simp add: call_view_def cache_agrees_def)
  next
    case False
    then show ?thesis by (intro ext) (simp add: call_view_def cache_of_def cached_view_def)
  qed
  have "fst (generate sh fr ?t' r c ambient seed options) = fst (generate sh fr t r c ambient seed options)"
    by (simp add: generate_pure v v' f(1))
  moreover have "nextAliases ?t' (xn ?t') = nextAliases t (xn t)"
    by (rule nextAliases_cong) (simp_all add: f)
  moreover have "nextAliases ?t' (yn ?t') = nextAliases t (yn t)"
    by (rule nextAliases_cong) (simp_all add: f)
  moreover have "nextAliases ?t' (sim ?t') = nextAliases t (sim t)"
    by (rule nextAliases_cong) (simp_all add: f)
  ultimately show ?thesis by simp
qed

theorem load_dataset_same_queries_witness:
  "fst (generate keep_order no_random (load (dataset chain_trainer) stale_trainer) 1 2 (Str ''_'') (Num 7)
          default_options)
     = fst (generate keep_order no_random chain_trainer 1 2 (Str ''_'') (Num 7) default_options)
   \<and> nextAliases (load (dataset chain_trainer) stale_trainer) (xn (load (dataset chain_trainer) stale_trainer)) (Num 1)
     = [Num 2]"
proof -
  have w: "one_entry_per_key chain_trainer"
    by (simp add: one_entry_per_key_def chain_trainer_def)
  have c: "cache_agrees chain_trainer \<or> \<not> use_cache_of default_options"
    by (simp add: cache_agrees_def cache_of_def cached_view_def chain_trainer_def relation_of_def fun_eq_iff
        split: axis.splits)
  have n: "nextAliases chain_trainer (xn chain_trainer) (Num 1) = [Num 2]"
    by (simp add: nextAliases_def aliases_def nextElements_def rel_get_def chain_trainer_def)
  from load_dataset_same_queries[OF w c, of stale_trainer keep_order no_random 1 2 "Str ''_''" "Num 7"]
  have "nextAliases (load (dataset chain_trainer) stale_trainer) (xn (load (dataset chain_trainer) stale_trainer))
          = nextAliases chain_trainer (xn chain_trainer)"
    and "fst (generate keep_order no_random (load (dataset chain_trainer) stale_trainer) 1 2 (Str ''_'') (Num 7)
          default_options)
     = fst (generate keep_order no_random chain_trainer 1 2 (Str ''_'') (Num 7) default_options)"
    by blast+
  then show ?thesis using n by simp
qed

text \<open>
  C7, as stated, fails on the trainer whose default cache is older than its graphs:
  \<open>generate\<close> on it reads the cache and places nothing, and on the trainer loaded from
  its dataset it places \<open>A\<close>.
\<close>

theorem stale_cache_differs_after_load:
  "fst (generate keep_order no_random stale_trainer 1 1 (Str ''_'') (Num 7) default_options)
     = Inr \<lparr>res_score = Quot 0, res_matrix = \<lparr>row = 1, col = 1, elements = [Str ''_'']\<rparr>\<rparr>
   \<and> fst (generate keep_order no_random (load (dataset stale_trainer) new_MatrixTrainer) 1 1 (Str ''_'')
            (Num 7) default_options)
     = Inr \<lparr>res_score = Quot 1, res_matrix = \<lparr>row = 1, col = 1, elements = [Str ''A'']\<rparr>\<rparr>"
  by (simp add: eval_defs stale_trainer_def load_def dataset_def new_MatrixTrainer_def
      new_Relationship_def rel_dataset_def new_Map_def map_set_def rat_number_collapse)

section \<open>The loop over the candidates\<close>

lemma push_all_pure: "snd (push_all (pure_lookup f) ax xs acc u) = u"
  by (induction xs arbitrary: acc) (simp_all add: pure_lookup_def)

lemma lookahead_check_eq:
  assumes "0 \<le> ri" "ri < int (row mat)" "0 \<le> ci" "ci < int (col mat)"
  shows "lookahead_check na mat ri ci xAliases s
           = (if 0 < ri \<and> ci + 1 < int (col mat)
              then (Inr (set (fst (na YN (js_nth (elements mat) ((ri - 1) * int (col mat) + (ci + 1))) s))
                           \<inter> set xAliases \<noteq> {}),
                    snd (na YN (js_nth (elements mat) ((ri - 1) * int (col mat) + (ci + 1))) s))
              else (Inr True, s))"
proof (cases "0 < ri \<and> ci + 1 < int (col mat)")
  case True
  with assms have g: "getElement mat (ri - 1) (ci + 1)
                        = Inr (js_nth (elements mat) ((ri - 1) * int (col mat) + (ci + 1)))"
    by (intro getElement_in_range) simp_all
  have h: "hasTop mat ri \<and> hasLeft mat (ci + 2)"
    using True assms by (simp add: hasTop_def hasLeft_def OutOfRange_def)
  have e: "(filter (\<lambda>v. v \<in> set xAliases) ns \<noteq> []) = (set ns \<inter> set xAliases \<noteq> {})" for ns
    by (auto simp: filter_empty_conv)
  show ?thesis
    using True h by (simp add: lookahead_check_def g case_prod_beta e)
next
  case False
  then have h: "(hasTop mat ri \<and> hasLeft mat (ci + 2)) = False"
    using assms by (auto simp: hasTop_def hasLeft_def OutOfRange_def)
  from False have h': "(0 < ri \<and> ci + 1 < int (col mat)) = False" by simp
  show ?thesis by (simp only: lookahead_check_def h h' if_False)
qed

text \<open>
  C6, as amended. At a cell of the grid, the lookahead test runs exactly when the cell
  is not in the first row and the column after it is a column of the grid, that is
  when the cell has a neighbour above and to the right. It then reads the expanded
  neighbours, on the y graph, of that neighbour, and passes when one of them is among
  the \<open>xAliases\<close> of the candidate. In the loop over the candidates, a candidate with
  both expansions non-empty that passed the test on the top and the left neighbour is
  passed over when the lookahead runs and finds no common element, and becomes the
  element of the cell otherwise, its \<open>xAliases\<close> becoming the pool.
\<close>

theorem lookahead_rule:
  assumes "0 \<le> ri" "ri < int (row mat)" "0 \<le> ci" "ci < int (col mat)"
  shows "lookahead_check na mat ri ci xAliases s
           = (if 0 < ri \<and> ci + 1 < int (col mat)
              then (Inr (set (fst (na YN (js_nth (elements mat) ((ri - 1) * int (col mat) + (ci + 1))) s))
                           \<inter> set xAliases \<noteq> {}),
                    snd (na YN (js_nth (elements mat) ((ri - 1) * int (col mat) + (ci + 1))) s))
              else (Inr True, s))
       \<and> (f XN sub \<noteq> [] \<and> f YN sub \<noteq> [] \<and> fst (connect_check (pure_lookup f) mat ri ci sub ()) = Inr True \<longrightarrow>
            scan (pure_lookup f) mat ri ci (sub # rest) (el, sbs) ()
              = scan (pure_lookup f) mat ri ci rest
                  (if 0 < ri \<and> ci + 1 < int (col mat)
                      \<and> set (f YN (js_nth (elements mat) ((ri - 1) * int (col mat) + (ci + 1))))
                           \<inter> set (f XN sub) = {}
                   then (el, sbs) else (sub, f XN sub)) ())"
proof (intro conjI impI)
  show "lookahead_check na mat ri ci xAliases s
           = (if 0 < ri \<and> ci + 1 < int (col mat)
              then (Inr (set (fst (na YN (js_nth (elements mat) ((ri - 1) * int (col mat) + (ci + 1))) s))
                           \<inter> set xAliases \<noteq> {}),
                    snd (na YN (js_nth (elements mat) ((ri - 1) * int (col mat) + (ci + 1))) s))
              else (Inr True, s))"
    by (rule lookahead_check_eq[OF assms])
next
  assume a: "f XN sub \<noteq> [] \<and> f YN sub \<noteq> [] \<and> fst (connect_check (pure_lookup f) mat ri ci sub ()) = Inr True"
  have x: "pure_lookup f XN sub () = (f XN sub, ())" and y: "pure_lookup f YN sub () = (f YN sub, ())"
    by (simp_all add: pure_lookup_def)
  obtain xs where p1: "push_all (pure_lookup f) YN (f XN sub) [] () = (xs, ())"
    by (cases "push_all (pure_lookup f) YN (f XN sub) [] ()") simp
  obtain ys where p2: "push_all (pure_lookup f) XN (f YN sub) [] () = (ys, ())"
    by (cases "push_all (pure_lookup f) XN (f YN sub) [] ()") simp
  from a have c: "connect_check (pure_lookup f) mat ri ci sub () = (Inr True, ())"
    by (cases "connect_check (pure_lookup f) mat ri ci sub ()") simp
  show "scan (pure_lookup f) mat ri ci (sub # rest) (el, sbs) ()
              = scan (pure_lookup f) mat ri ci rest
                  (if 0 < ri \<and> ci + 1 < int (col mat)
                      \<and> set (f YN (js_nth (elements mat) ((ri - 1) * int (col mat) + (ci + 1))))
                           \<inter> set (f XN sub) = {}
                   then (el, sbs) else (sub, f XN sub)) ()"
    using a by (simp add: x y p1 p2 c lookahead_check_eq[OF assms] pure_lookup_def)
qed

theorem lookahead_rule_witness:
  "lookahead_check (pure_lookup (expanded diag_trainer))
       \<lparr>row = 2, col = 3, elements = [Num 1, Num 2, Num 3, Num 0, Num 0, Num 0]\<rparr> 1 0 [Num 3] ()
     = (Inr False, ())
   \<and> scan (pure_lookup (expanded diag_trainer))
       \<lparr>row = 2, col = 3, elements = [Num 1, Num 2, Num 3, Num 0, Num 0, Num 0]\<rparr> 1 0 [Num 3]
       (Undefined, [Num 3]) ()
     = (Inr (Undefined, [Num 3]), ())"
proof -
  let ?mat = "\<lparr>row = 2, col = 3, elements = [Num 1, Num 2, Num 3, Num 0, Num 0, Num 0]\<rparr>"
  let ?f = "expanded diag_trainer"
  have x: "?f XN (Num 3) = [Num 3]" and y: "?f YN (Num 3) = [Num 3]" and d: "?f YN (Num 2) = [Num 1]"
    by (simp_all add: expanded_def nextAliases_def aliases_def nextElements_def rel_get_def
        relation_of_def diag_trainer_def)
  have c: "fst (connect_check (pure_lookup ?f) ?mat 1 0 (Num 3) ()) = Inr True"
    by (simp add: connect_check_def hasTop_def hasLeft_def OutOfRange_def)
  have r: "(0::int) \<le> 1" "(1::int) < int (row ?mat)" "(0::int) \<le> 0" "(0::int) < int (col ?mat)"
    by simp_all
  note th = lookahead_rule[OF r, of "pure_lookup ?f" "[Num 3]" "()" ?f "Num 3" "[]" Undefined "[Num 3]"]
  from th have "lookahead_check (pure_lookup ?f) ?mat 1 0 [Num 3] () = (Inr False, ())"
    by (simp add: pure_lookup_def js_nth_def d)
  moreover from th x y c d
  have "scan (pure_lookup ?f) ?mat 1 0 [Num 3] (Undefined, [Num 3]) () = (Inr (Undefined, [Num 3]), ())"
    by (simp add: js_nth_def)
  ultimately show ?thesis by simp
qed

text \<open>
  C6, as stated, fails in the column before the last: in a grid of two columns, at
  row \<open>1\<close> and column \<open>0\<close>, column \<open>0 + 2\<close> is out of range, and the lookahead test
  runs all the same and makes the loop pass over the candidate.
\<close>

theorem lookahead_runs_before_last_column:
  "lookahead_check (pure_lookup (expanded diag_trainer))
       \<lparr>row = 2, col = 2, elements = [Num 1, Num 2, Num 0, Num 0]\<rparr> 1 0
       (expanded diag_trainer XN (Num 3)) ()
     = (Inr False, ())
   \<and> scan (pure_lookup (expanded diag_trainer))
       \<lparr>row = 2, col = 2, elements = [Num 1, Num 2, Num 0, Num 0]\<rparr> 1 0 [Num 3]
       (Undefined, [Num 3]) ()
     = (Inr (Undefined, [Num 3]), ())
   \<and> OutOfRange (0 + 2) (int (col \<lparr>row = 2, col = 2, elements = [Num 1, Num 2, Num 0, Num 0]\<rparr>) - 1) 0"
  by (simp add: lookahead_check_def connect_check_def hasTop_def hasLeft_def OutOfRange_def
      getElement_def getIndex_def js_nth_def pure_lookup_def expanded_def nextAliases_def aliases_def
      nextElements_def rel_get_def relation_of_def diag_trainer_def)

text \<open>
  In the first row no test applies: the loop runs up to the first candidate with an empty
  expansion, and the element it leaves is the last candidate before that one.
\<close>

lemma first_row_checks:
  "connect_check na mat 0 ci sub s = (Inr True, s)"
  "lookahead_check na mat 0 ci xA s = (Inr True, s)"
  by (simp_all add: connect_check_def lookahead_check_def hasTop_def OutOfRange_def)

lemma scan_first_row:
  "scan (pure_lookup f) mat 0 ci cands (el, sbs) ()
     = (Inr (case rev (takeWhile (\<lambda>sub. f XN sub \<noteq> [] \<and> f YN sub \<noteq> []) cands) of
               [] \<Rightarrow> (el, sbs)
             | sub # before \<Rightarrow> (sub, f XN sub)), ())"
proof (induction cands arbitrary: el sbs)
  case Nil
  then show ?case by simp
next
  case (Cons sub rest)
  have x: "pure_lookup f XN sub () = (f XN sub, ())" and y: "pure_lookup f YN sub () = (f YN sub, ())"
    by (simp_all add: pure_lookup_def)
  obtain xs where p1: "push_all (pure_lookup f) YN (f XN sub) [] () = (xs, ())"
    by (cases "push_all (pure_lookup f) YN (f XN sub) [] ()") simp
  obtain ys where p2: "push_all (pure_lookup f) XN (f YN sub) [] () = (ys, ())"
    by (cases "push_all (pure_lookup f) XN (f YN sub) [] ()") simp
  show ?case
  proof (cases "f XN sub \<noteq> [] \<and> f YN sub \<noteq> []")
    case True
    then show ?thesis
      using Cons.IH[of sub "f XN sub"]
      by (simp add: x y p1 p2 first_row_checks split: list.splits)
  next
    case False
    then show ?thesis by (auto simp: x y)
  qed
qed

text \<open>
  C1. On the trainer whose two flags follow each other and themselves, a grid of one
  cell: whatever order \<open>shuffle\<close> gives to the pool of the two flags, the element of
  the cell is the second candidate of that order, although the first one passes every
  test (the loop over the first candidate alone accepts it). The loop has no \<open>break\<close>
  after it accepts a candidate: a later candidate that passes takes its place.
\<close>

theorem generate_keeps_last_candidate:
  assumes "sh [Num 1, Num 2] seed = [a, b]" "a \<noteq> b" "a = Num 1 \<or> a = Num 2" "b = Num 1 \<or> b = Num 2"
  shows "fst (generate sh fr two_trainer 1 1 (Str ''_'') seed default_options)
           = Inr \<lparr>res_score = Quot 1,
                  res_matrix = \<lparr>row = 1, col = 1,
                                elements = [restore_cell (flags two_trainer) (Str ''_'') b]\<rparr>\<rparr>
       \<and> fst (scan (pure_lookup (expanded two_trainer)) (zero_matrix 1 1) 0 0 [a] (Undefined, [a, b]) ())
           = Inr (a, [Num 1, Num 2])"
proof -
  from assms consider "a = Num 1" "b = Num 2" | "a = Num 2" "b = Num 1" by auto
  then show ?thesis
  proof cases
    case 1
    with assms(1) have s: "sh [Num 1, Num 2] seed = [Num 1, Num 2]" by simp
    show ?thesis
      unfolding 1
      by (simp add: generate_def generate_with_def default_options_def new_Matrix_def
          cell_body_def cell_scan_def gen_init_def all_nodes_def getRowIndex_def getColIndex_def OutOfRange_def
          reseed_def UseCache_nextAliases_def cache_of_def relation_of_def gen_return_result
          size_of_def js_div_def restore_cell_def hasKey_def getKey_def nextAliases_def aliases_def
          nextElements_def rel_get_def connect_check_def lookahead_check_def hasTop_def hasLeft_def Let_def
          expanded_def pure_lookup_def use_cache_of_def mode_of_def zero_matrix_def two_trainer_def s
          One_rat_def)
  next
    case 2
    with assms(1) have s: "sh [Num 1, Num 2] seed = [Num 2, Num 1]" by simp
    show ?thesis
      unfolding 2
      by (simp add: generate_def generate_with_def default_options_def new_Matrix_def
          cell_body_def cell_scan_def gen_init_def all_nodes_def getRowIndex_def getColIndex_def OutOfRange_def
          reseed_def UseCache_nextAliases_def cache_of_def relation_of_def gen_return_result
          size_of_def js_div_def restore_cell_def hasKey_def getKey_def nextAliases_def aliases_def
          nextElements_def rel_get_def connect_check_def lookahead_check_def hasTop_def hasLeft_def Let_def
          expanded_def pure_lookup_def use_cache_of_def mode_of_def zero_matrix_def two_trainer_def s
          One_rat_def)
  qed
qed

theorem generate_keeps_last_candidate_witness:
  "fst (generate keep_order no_random two_trainer 1 1 (Str ''_'') (Num 7) default_options)
     = Inr \<lparr>res_score = Quot 1, res_matrix = \<lparr>row = 1, col = 1, elements = [Str ''B'']\<rparr>\<rparr>
   \<and> fst (scan (pure_lookup (expanded two_trainer)) (zero_matrix 1 1) 0 0 [Num 1]
            (Undefined, [Num 1, Num 2]) ())
     = Inr (Num 1, [Num 1, Num 2])"
proof -
  have s: "keep_order [Num 1, Num 2] (Num 7) = [Num 1, Num 2]" by (simp add: keep_order_def)
  have r: "restore_cell (flags two_trainer) (Str ''_'') (Num 2) = Str ''B''"
    by (simp add: restore_cell_def hasKey_def getKey_def two_trainer_def)
  from generate_keeps_last_candidate[of keep_order "Num 7" "Num 1" "Num 2" no_random, OF s] r
  show ?thesis by simp
qed

section \<open>The registry\<close>

lemma map_of_None_fst: "map_of m k = None \<Longrightarrow> k \<notin> fst ` set m"
  by (simp add: map_of_eq_None_iff)

lemma ensureFlag_present: "map_of fl key = Some flag \<Longrightarrow> ensureFlag key fl = (flag, fl)"
  by (simp add: ensureFlag_def)

lemma ensureFlag_absent:
  "map_of fl key = None \<Longrightarrow>
     ensureFlag key fl = (int (length fl) + 1, fl @ [(key, int (length fl) + 1)])"
  by (simp add: ensureFlag_def map_set_absent[OF map_of_None_fst])

lemma flags_dense_ensureFlag:
  assumes "flags_dense fl"
  shows "flags_dense (snd (ensureFlag key fl))"
proof (cases "map_of fl key")
  case None
  then have "key \<notin> fst ` set fl" by (rule map_of_None_fst)
  then show ?thesis
    using assms by (simp add: ensureFlag_absent[OF None] flags_dense_def)
next
  case (Some flag)
  then show ?thesis using assms by (simp add: ensureFlag_present)
qed

lemma flags_dense_distinct: "flags_dense fl \<Longrightarrow> distinct (map snd fl)"
  by (simp add: flags_dense_def distinct_map)

lemma flags_dense_bound: "flags_dense fl \<Longrightarrow> v \<in> snd ` set fl \<Longrightarrow> v < int (length fl) + 1"
proof -
  assume d: "flags_dense fl" and v: "v \<in> snd ` set fl"
  from v have "v \<in> set (map snd fl)" by simp
  with d have "v \<in> set (map int [1..<Suc (length fl)])" by (simp add: flags_dense_def)
  then show ?thesis by auto
qed

lemma flags_dense_ensureFlags: "flags_dense fl \<Longrightarrow> flags_dense (snd (ensureFlags vs fl))"
  by (induction vs arbitrary: fl) (simp_all add: case_prod_beta flags_dense_ensureFlag)

lemma flags_dense_ally_map: "flags_dense fl \<Longrightarrow> flags_dense (snd (ally_map groups fl))"
  by (induction groups arbitrary: fl)
     (auto simp: case_prod_beta flags_dense_ensureFlag flags_dense_ensureFlags)

lemma flags_dense_embedding_loop:
  "flags_dense fl \<Longrightarrow> flags_dense (snd (embedding_loop src is out fl))"
  by (induction "is" arbitrary: out fl) (simp_all add: case_prod_beta Let_def flags_dense_ensureFlag)

lemma flags_dense_embedding: "flags_dense fl \<Longrightarrow> flags_dense (snd (embedding m fl))"
  by (simp add: embedding_def case_prod_beta flags_dense_embedding_loop split: sum.splits)

lemma flags_dense_train_cell:
  "flags_dense (flags t) \<Longrightarrow> flags_dense (flags (snd (train_cell to_fn m i t)))"
  by (simp add: train_cell_def Let_def case_prod_beta flags_dense_ensureFlag split: sum.splits)

lemma flags_dense_train_loop:
  "flags_dense (flags t) \<Longrightarrow> flags_dense (flags (snd (train_loop to_fn m is t)))"
proof (induction "is" arbitrary: t)
  case Nil
  then show ?case by simp
next
  case (Cons i rest)
  obtain e t' where c: "train_cell to_fn m i t = (e, t')" by (cases "train_cell to_fn m i t")
  with flags_dense_train_cell[OF Cons.prems, of to_fn m i] have "flags_dense (flags t')" by simp
  with Cons.IH[of t'] c show ?case by (cases e) simp_all
qed

lemma flags_dense_apply_op:
  assumes "flags_dense (flags t)" "load_is_dense op"
  shows "flags_dense (flags (apply_op to_fn merge_fn sh fr op t))"
proof (cases op)
  case (OpEnsureFlag key)
  then show ?thesis using assms by (simp add: flags_dense_ensureFlag)
next
  case (OpEmbedding m)
  then show ?thesis using assms by (simp add: flags_dense_embedding)
next
  case (OpAlly groups)
  then show ?thesis using assms flags_dense_ally_map[of "flags t" groups]
    by (simp add: ally_def case_prod_beta)
next
  case (OpTrain m)
  then show ?thesis using assms by (simp add: train_def flags_dense_train_loop)
next
  case (OpLoad ds)
  then show ?thesis using assms by (cases ds) (simp add: load_def)
next
  case (OpGenerate r c ambient seed options)
  then show ?thesis using assms by (simp add: generate_keeps_graphs)
qed

lemma flags_dense_run_ops:
  "flags_dense (flags t) \<Longrightarrow> loads_dense ops \<Longrightarrow>
     flags_dense (flags (run_ops to_fn merge_fn sh fr ops t))"
  unfolding run_ops_def loads_dense_def
  by (induction ops arbitrary: t) (simp_all add: flags_dense_apply_op)

lemma flags_dense_new: "flags_dense (flags new_MatrixTrainer)"
  by (simp add: flags_dense_def new_MatrixTrainer_def new_Map_def)

lemma flags_dense_dataset:
  "flags_dense (flags t) \<Longrightarrow> load_is_dense (OpLoad (dataset t))"
  by (simp add: dataset_def flags_dense_def new_Map_distinct)

text \<open>
  C9, as amended. \<open>ensureFlag\<close> returns the flag of an element that is registered and
  leaves the registry as it was; it gives an element that is not registered the flag
  \<open>size + 1\<close> and appends that entry. When the flags of the registry are dense, the
  new flag is above every flag in use; and over every sequence of operations that
  starts from dense flags (those of a new trainer are) and loads only datasets whose
  table of flags is dense (the dataset of a trainer with dense flags is), the flags
  stay dense, so that no two elements have the same flag.
\<close>

theorem ensureFlag_rule:
  "(map_of fl key = Some flag \<longrightarrow> ensureFlag key fl = (flag, fl))
   \<and> (map_of fl key = None \<longrightarrow>
         ensureFlag key fl = (int (length fl) + 1, fl @ [(key, int (length fl) + 1)]))
   \<and> (flags_dense fl \<and> map_of fl key = None \<longrightarrow>
         (\<forall>v \<in> snd ` set fl. v < fst (ensureFlag key fl)))
   \<and> (flags_dense (flags t) \<and> loads_dense ops \<longrightarrow>
         flags_dense (flags (run_ops to_fn merge_fn sh fr ops t))
         \<and> distinct (map snd (flags (run_ops to_fn merge_fn sh fr ops t))))"
  by (auto simp: ensureFlag_present ensureFlag_absent flags_dense_run_ops
      dest: flags_dense_bound intro: flags_dense_distinct)

theorem ensureFlag_rule_witness:
  "distinct (map snd (flags (run_ops addEdge mergeEdges keep_order no_random
       [OpTrain \<lparr>row = 1, col = 2, elements = [Str ''A'', Str ''B'']\<rparr>,
        OpLoad ([(Str ''A'', 1), (Str ''B'', 2)], [(1, [2])], [], []),
        OpEnsureFlag (Str ''C'')]
       new_MatrixTrainer)))
   \<and> ensureFlag (Str ''C'') [(Str ''A'', 1), (Str ''B'', 2)]
       = (3, [(Str ''A'', 1), (Str ''B'', 2), (Str ''C'', 3)])
   \<and> ensureFlag (Str ''A'') [(Str ''A'', 1), (Str ''B'', 2)] = (1, [(Str ''A'', 1), (Str ''B'', 2)])"
proof -
  let ?ops = "[OpTrain \<lparr>row = 1, col = 2, elements = [Str ''A'', Str ''B'']\<rparr>,
        OpLoad ([(Str ''A'', 1), (Str ''B'', 2)], [(1, [2])], [], []),
        OpEnsureFlag (Str ''C'')]"
  let ?fl = "[(Str ''A'', 1), (Str ''B'', 2)]"
  have l: "loads_dense ?ops"
    by (simp add: loads_dense_def flags_dense_def new_Map_def map_set_def)
  have a: "map_of ?fl (Str ''C'') = None" and p: "map_of ?fl (Str ''A'') = Some 1" by simp_all
  from ensureFlag_rule[of ?fl "Str ''C''" _ new_MatrixTrainer ?ops addEdge mergeEdges keep_order no_random]
    a l flags_dense_new
  have 1: "ensureFlag (Str ''C'') ?fl = (3, ?fl @ [(Str ''C'', 3)])"
    and 2: "distinct (map snd (flags (run_ops addEdge mergeEdges keep_order no_random ?ops new_MatrixTrainer)))"
    by simp_all
  from ensureFlag_rule[of ?fl "Str ''A''" 1 new_MatrixTrainer "[]" addEdge mergeEdges keep_order no_random] p
  have 3: "ensureFlag (Str ''A'') ?fl = (1, ?fl)" by simp
  from 1 2 3 show ?thesis by simp
qed

text \<open>
  C9, as stated, fails after \<open>load\<close>: on the dataset whose table gives \<open>A\<close> the flag
  \<open>2\<close>, the registry has size \<open>1\<close>, and \<open>ensureFlag\<close> gives \<open>B\<close> the flag \<open>2\<close> too.
\<close>

theorem load_breaks_distinct_flags:
  "snd (ensureFlag (Str ''B'') (flags (load ([(Str ''A'', 2)], [], [], []) new_MatrixTrainer)))
     = [(Str ''A'', 2), (Str ''B'', 2)]"
  by (simp add: load_def new_MatrixTrainer_def new_Map_def map_set_def ensureFlag_def new_Relationship_def)

text \<open>
  C10, as amended. \<open>restore\<close> writes into the array of its argument: the matrix it
  returns has the reference of that array as its elements, and after the call the
  array holds, at every offset, the restored value of the flag it held (the element
  registered with that flag, or the fill when there is none); every other array of
  the store is as it was. An offset still reads as before exactly when the restored
  value is the value it held.
\<close>

theorem restore_overwrites_input:
  assumes "row m * col m = length (h (elements m))"
  shows "(\<exists>res. fst (restore fl h m fill) = Inr res \<and> elements res = elements m
                \<and> row res = row m \<and> col res = col m)
       \<and> snd (restore fl h m fill) (elements m) = map (restore_cell fl fill) (h (elements m))
       \<and> (\<forall>a. a \<noteq> elements m \<longrightarrow> snd (restore fl h m fill) a = h a)
       \<and> (\<forall>i < length (h (elements m)).
             (snd (restore fl h m fill) (elements m) ! i = h (elements m) ! i)
               = (restore_cell fl fill (h (elements m) ! i) = h (elements m) ! i))"
  by (simp add: restore_result[where m = m and h = h, OF assms])

theorem restore_overwrites_input_witness:
  "fst (restore [(Str ''A'', 1)] (store_of [Num 1, Num 7]) \<lparr>row = 1, col = 2, elements = 0\<rparr> (Str ''_''))
     = Inr \<lparr>row = 1, col = 2, elements = 0\<rparr>
   \<and> snd (restore [(Str ''A'', 1)] (store_of [Num 1, Num 7]) \<lparr>row = 1, col = 2, elements = 0\<rparr> (Str ''_'')) 0
     = [Str ''A'', Str ''_'']"
proof -
  let ?m = "\<lparr>row = 1, col = 2, elements = 0\<rparr> :: rmatrix"
  have s: "row ?m * col ?m = length (store_of [Num 1, Num 7] (elements ?m))"
    by (simp add: store_of_def)
  from restore_overwrites_input[where m = ?m and h = "store_of [Num 1, Num 7]"
      and fl = "[(Str ''A'', 1)]" and fill = "Str ''_''", OF s]
  show ?thesis
    by (auto simp: store_of_def restore_cell_def hasKey_def getKey_def)
qed

text \<open>
  C10, as stated, fails where an element is a number equal to its flag: the registry
  that met the element \<open>1\<close> first gives it the flag \<open>1\<close>, and the array \<open>[1]\<close> holds
  \<open>[1]\<close> after \<open>restore\<close> as before.
\<close>

theorem restore_keeps_numeric_element:
  "snd (restore (snd (ensureFlag (Num 1) [])) (store_of [Num 1]) \<lparr>row = 1, col = 1, elements = 0\<rparr> (Num 0)) 0
     = [Num 1]
   \<and> store_of [Num 1] 0 = [Num 1]"
  by (simp add: restore_def new_Matrix_ref_def store_of_def restore_step_def restore_cell_def
      hasKey_def getKey_def ensureFlag_def map_set_def js_nth_def Let_def)

end
